theory Spec2Isabelle
  imports Main "HOL-Library.Word"
begin

unbundle bit_operations_syntax

section \<open>Timers: nih/timer.c\<close>

text \<open>
  \<^verbatim>\<open>time_t\<close> is the signed 64-bit integer of the LP64 platforms. Its values are
  integers, and the two sums that timer.c forms, \<^verbatim>\<open>time (NULL) + timeout\<close> and
  \<^verbatim>\<open>now + timer->period\<close>, wrap around at 64 bits as the compiled code does:
  \<open>time_t_wrap\<close> writes the wrap-around out, and \<open>time_t_fits\<close> says that an integer is
  a value of \<^verbatim>\<open>time_t\<close>. Pointers (callbacks, data, allocated blocks) are addresses,
  \<open>NULL\<close> being 0.
\<close>

type_synonym time_t = int

definition time_t_wrap :: "int \<Rightarrow> time_t" where
  "time_t_wrap x = (x + 2 ^ 63) mod 2 ^ 64 - 2 ^ 63"

definition time_t_fits :: "int \<Rightarrow> bool" where
  "time_t_fits x \<longleftrightarrow> - (2 ^ 63) \<le> x \<and> x < 2 ^ 63"

definition NULL :: nat where
  "NULL = 0"

text \<open>
  Modelled from the spec: the \<^verbatim>\<open>NihTimer\<close> structure and the \<^verbatim>\<open>NihTimerType\<close> enumeration
  of nih/timer.h, which is not part of the sources at hand. The structure holds a type tag
  and a union of \<^verbatim>\<open>timeout\<close>, \<^verbatim>\<open>period\<close> and \<^verbatim>\<open>schedule\<close>, "exactly one populated,
  selected by kind"; tag and union member are one datatype here. The contents of a
  schedule are never looked at by timer.c and stay a type parameter.
\<close>

datatype 's NihTimerType =
    NIH_TIMER_TIMEOUT time_t
  | NIH_TIMER_PERIODIC time_t
  | NIH_TIMER_SCHEDULED 's

record 's NihTimer =
  timer_entry :: nat
  timer_due :: time_t
  timer_type :: "'s NihTimerType"
  timer_callback :: nat
  timer_data :: nat

text \<open>
  The static list \<^verbatim>\<open>timers\<close>, in list order. \<^verbatim>\<open>nih_timer_init\<close> creates it on first use;
  every function of timer.c calls \<^verbatim>\<open>nih_timer_init\<close> first, so the list that does not
  exist yet and the empty list are the same state here. Next to it the state records the
  callbacks that were called, oldest first, each with the two arguments it received:
  (callback, data, timer). A callback is foreign code: the model covers callbacks that
  leave the timer list as it is.
\<close>

type_synonym timer_call = "nat \<times> nat \<times> nat"

record 's timer_state =
  timers :: "'s NihTimer list"
  timer_calls :: "timer_call list"

datatype error = AssertionFailed

text \<open>
  Modelled from the spec: the list container of nih/list.h, an external collaborator
  ("insert") that is not part of the sources at hand. \<^verbatim>\<open>nih_list_add (timers, entry)\<close>
  puts the entry in front of the list head, which is the far end of the list for
  \<^verbatim>\<open>NIH_LIST_FOREACH\<close>: a list is kept in the order in which the loops meet its entries.
\<close>

definition nih_list_add :: "'a list \<Rightarrow> 'a \<Rightarrow> 'a list" where
  "nih_list_add list entry = list @ [entry]"

text \<open>
  The three registration functions. Beyond the arguments of the C function each takes
  what its environment answers: \<open>now\<close> is the value of \<^verbatim>\<open>time (NULL)\<close> and \<open>new\<close> the
  pointer \<^verbatim>\<open>nih_new\<close> returns (\<open>NULL\<close> when memory is exhausted). A failed \<^verbatim>\<open>nih_assert\<close>
  aborts the process: the result is \<open>Inl AssertionFailed\<close>. Otherwise the result is the
  returned pointer and the state.
\<close>

definition nih_timer_add_timeout ::
  "nat \<Rightarrow> nat \<Rightarrow> time_t \<Rightarrow> time_t \<Rightarrow> nat \<Rightarrow> 's timer_state \<Rightarrow> error + (nat \<times> 's timer_state)" where
  "nih_timer_add_timeout callback data timeout now new s =
     (if callback = NULL then Inl AssertionFailed
      else if new = NULL then Inr (NULL, s)
      else
        let timer = \<lparr> timer_entry = new,
                      timer_due = time_t_wrap (now + timeout),
                      timer_type = NIH_TIMER_TIMEOUT timeout,
                      timer_callback = callback,
                      timer_data = data \<rparr>
        in Inr (new, s\<lparr> timers := nih_list_add (timers s) timer \<rparr>))"

definition nih_timer_add_periodic ::
  "nat \<Rightarrow> nat \<Rightarrow> time_t \<Rightarrow> time_t \<Rightarrow> nat \<Rightarrow> 's timer_state \<Rightarrow> error + (nat \<times> 's timer_state)" where
  "nih_timer_add_periodic callback data period now new s =
     (if callback = NULL then Inl AssertionFailed
      else if \<not> period > 0 then Inl AssertionFailed
      else if new = NULL then Inr (NULL, s)
      else
        let timer = \<lparr> timer_entry = new,
                      timer_due = time_t_wrap (now + period),
                      timer_type = NIH_TIMER_PERIODIC period,
                      timer_callback = callback,
                      timer_data = data \<rparr>
        in Inr (new, s\<lparr> timers := nih_list_add (timers s) timer \<rparr>))"

text \<open>The schedule is passed by pointer: \<open>None\<close> is the null pointer.\<close>

definition nih_timer_add_scheduled ::
  "nat \<Rightarrow> nat \<Rightarrow> 's option \<Rightarrow> nat \<Rightarrow> 's timer_state \<Rightarrow> error + (nat \<times> 's timer_state)" where
  "nih_timer_add_scheduled callback data schedule new s =
     (if callback = NULL then Inl AssertionFailed
      else case schedule of
        None \<Rightarrow> Inl AssertionFailed
      | Some sched \<Rightarrow>
          if new = NULL then Inr (NULL, s)
          else
            let timer = \<lparr> timer_entry = new,
                          timer_due = 0,
                          timer_type = NIH_TIMER_SCHEDULED sched,
                          timer_callback = callback,
                          timer_data = data \<rparr>
            in Inr (new, s\<lparr> timers := nih_list_add (timers s) timer \<rparr>))"

text \<open>
  \<^verbatim>\<open>nih_timer_next_due\<close>: the loop carries \<open>next\<close> (\<open>None\<close> is \<^verbatim>\<open>NULL\<close>) over the list.
\<close>

fun next_due_loop :: "'s NihTimer option \<Rightarrow> 's NihTimer list \<Rightarrow> 's NihTimer option" where
  "next_due_loop next [] = next"
| "next_due_loop next (timer # iter) =
     next_due_loop
       (case next of
          None \<Rightarrow> Some timer
        | Some n \<Rightarrow> if timer_due timer < timer_due n then Some timer else next)
       iter"

definition nih_timer_next_due :: "'s timer_state \<Rightarrow> 's NihTimer option" where
  "nih_timer_next_due s = next_due_loop None (timers s)"

text \<open>
  \<^verbatim>\<open>nih_timer_poll\<close>: \<open>now\<close> is read once, before the loop. The loop visits every timer
  of the list; a timer that is not yet due is skipped, a due one has its callback called
  and is then freed (timeout), or rescheduled (periodic, scheduled). The loop returns the
  list as it leaves it and the calls it made.
\<close>

fun timer_poll_loop :: "time_t \<Rightarrow> 's NihTimer list \<Rightarrow> 's NihTimer list \<times> timer_call list" where
  "timer_poll_loop now [] = ([], [])"
| "timer_poll_loop now (timer # iter) =
     (let (rest, calls) = timer_poll_loop now iter in
      if timer_due timer > now then (timer # rest, calls)
      else
        let call = (timer_callback timer, timer_data timer, timer_entry timer) in
        case timer_type timer of
          NIH_TIMER_TIMEOUT timeout \<Rightarrow> (rest, call # calls)
        | NIH_TIMER_PERIODIC period \<Rightarrow>
            (timer\<lparr> timer_due := time_t_wrap (now + period) \<rparr> # rest, call # calls)
        | NIH_TIMER_SCHEDULED sched \<Rightarrow>
            (timer\<lparr> timer_due := 0 \<rparr> # rest, call # calls))"

definition nih_timer_poll :: "time_t \<Rightarrow> 's timer_state \<Rightarrow> 's timer_state" where
  "nih_timer_poll now s =
     (let (list, calls) = timer_poll_loop now (timers s)
      in s\<lparr> timers := list, timer_calls := timer_calls s @ calls \<rparr>)"

text \<open>A run of polls, one for each clock value of the list.\<close>

fun nih_timer_polls :: "time_t list \<Rightarrow> 's timer_state \<Rightarrow> 's timer_state" where
  "nih_timer_polls [] s = s"
| "nih_timer_polls (now # nows) s = nih_timer_polls nows (nih_timer_poll now s)"

section \<open>Child watches: child.c\<close>

text \<open>
  \<^verbatim>\<open>pid_t\<close> and \<^verbatim>\<open>int\<close> are 32-bit words (\<open>-1\<close> is the word of all ones); the
  \<^verbatim>\<open>NihChildEvents\<close> bit mask is a 32-bit word as well.
\<close>

type_synonym pid_t = "32 word"
type_synonym NihChildEvents = "32 word"

text \<open>
  Modelled from the spec: the \<^verbatim>\<open>NihChildEvents\<close> enumeration of child.h, which is not part
  of the sources at hand: "a bitmask of subscribed transition kinds", one bit for each of
  the seven kinds.
\<close>

definition NIH_CHILD_EXITED :: NihChildEvents where "NIH_CHILD_EXITED = 0x01"
definition NIH_CHILD_KILLED :: NihChildEvents where "NIH_CHILD_KILLED = 0x02"
definition NIH_CHILD_DUMPED :: NihChildEvents where "NIH_CHILD_DUMPED = 0x04"
definition NIH_CHILD_STOPPED :: NihChildEvents where "NIH_CHILD_STOPPED = 0x08"
definition NIH_CHILD_CONTINUED :: NihChildEvents where "NIH_CHILD_CONTINUED = 0x10"
definition NIH_CHILD_TRAPPED :: NihChildEvents where "NIH_CHILD_TRAPPED = 0x20"
definition NIH_CHILD_PTRACE :: NihChildEvents where "NIH_CHILD_PTRACE = 0x40"

text \<open>The \<^verbatim>\<open>si_code\<close> values of a SIGCHLD and the trap signal, as Linux numbers them.\<close>

definition CLD_EXITED :: "32 word" where "CLD_EXITED = 1"
definition CLD_KILLED :: "32 word" where "CLD_KILLED = 2"
definition CLD_DUMPED :: "32 word" where "CLD_DUMPED = 3"
definition CLD_TRAPPED :: "32 word" where "CLD_TRAPPED = 4"
definition CLD_STOPPED :: "32 word" where "CLD_STOPPED = 5"
definition CLD_CONTINUED :: "32 word" where "CLD_CONTINUED = 6"
definition SIGTRAP :: "32 word" where "SIGTRAP = 5"

text \<open>The three fields of \<^verbatim>\<open>siginfo_t\<close> that child.c reads.\<close>

record siginfo_t =
  si_pid :: pid_t
  si_code :: "32 word"
  si_status :: "32 word"

record NihChildWatch =
  watch_entry :: nat
  watch_pid :: pid_t
  watch_events :: NihChildEvents
  watch_handler :: nat
  watch_data :: nat

text \<open>
  Modelled from the spec: the operating system's wait facility, "(a) non-consuming query
  of the next pending child-state transition across all children, returning pid=0 when
  none pending; (b) consuming finalization of a transition for one specific pid". The
  kernel holds the pending transitions in the order it reports them. \<open>waitid_idle\<close> is
  what \<^verbatim>\<open>waitid\<close> returns when nothing is pending: 0 while children exist, -1 when
  there is no child at all. The consuming call is taken to succeed.
\<close>

record kernel =
  pending :: "siginfo_t list"
  waitid_idle :: int

definition waitid_nowait :: "kernel \<Rightarrow> int \<times> siginfo_t" where
  "waitid_nowait k =
     (case pending k of
        [] \<Rightarrow> (waitid_idle k, \<lparr> si_pid = 0, si_code = 0, si_status = 0 \<rparr>)
      | info # _ \<Rightarrow> (0, info))"

fun consume :: "pid_t \<Rightarrow> siginfo_t list \<Rightarrow> siginfo_t list" where
  "consume pid [] = []"
| "consume pid (info # rest) = (if si_pid info = pid then rest else info # consume pid rest)"

definition waitid_pid :: "pid_t \<Rightarrow> kernel \<Rightarrow> kernel" where
  "waitid_pid pid k = k\<lparr> pending := consume pid (pending k) \<rparr>"

text \<open>
  What \<^verbatim>\<open>nih_child_poll\<close> does, in order: the two kinds of \<^verbatim>\<open>waitid\<close> call and the calls
  of handlers. \<open>Handler watch pid event status\<close> is the call
  \<^verbatim>\<open>watch->handler (watch->data, pid, event, status)\<close>. A handler is foreign code: the
  model covers handlers that leave the list of watches as it is.
\<close>

datatype child_event =
    Waitid_nowait int siginfo_t
  | Handler NihChildWatch pid_t NihChildEvents "32 word"
  | Waitid_pid pid_t

record child_state =
  child_watches :: "NihChildWatch list"
  child_kernel :: kernel
  child_trace :: "child_event list"

text \<open>
  \<^verbatim>\<open>nih_child_add_watch\<close>; \<open>new\<close> is the pointer \<^verbatim>\<open>nih_new (parent, NihChildWatch)\<close>
  returns.
\<close>

definition nih_child_add_watch ::
  "nat \<Rightarrow> pid_t \<Rightarrow> NihChildEvents \<Rightarrow> nat \<Rightarrow> nat \<Rightarrow> nat \<Rightarrow> child_state \<Rightarrow> error + (nat \<times> child_state)" where
  "nih_child_add_watch parent pid events handler data new s =
     (if \<not> pid \<noteq> 0 then Inl AssertionFailed
      else if handler = NULL then Inl AssertionFailed
      else if new = NULL then Inr (NULL, s)
      else
        let watch = \<lparr> watch_entry = new,
                      watch_pid = pid,
                      watch_events = events,
                      watch_handler = handler,
                      watch_data = data \<rparr>
        in Inr (new, s\<lparr> child_watches := nih_list_add (child_watches s) watch \<rparr>))"

text \<open>
  The \<^verbatim>\<open>switch (info.si_code)\<close> of \<^verbatim>\<open>nih_child_poll\<close>: event, status and \<^verbatim>\<open>free_watch\<close>;
  \<open>None\<close> is the default case, \<^verbatim>\<open>nih_assert_not_reached\<close>. The shift of the signed
  status is the arithmetic one.
\<close>

definition nih_child_poll_switch :: "siginfo_t \<Rightarrow> (NihChildEvents \<times> 32 word \<times> bool) option" where
  "nih_child_poll_switch info =
     (if si_code info = CLD_EXITED then Some (NIH_CHILD_EXITED, si_status info, True)
      else if si_code info = CLD_KILLED then Some (NIH_CHILD_KILLED, si_status info, True)
      else if si_code info = CLD_DUMPED then Some (NIH_CHILD_DUMPED, si_status info, True)
      else if si_code info = CLD_TRAPPED then
        (if (si_status info AND 0x7f) = SIGTRAP \<and> (si_status info AND NOT 0x7f) \<noteq> 0
         then Some (NIH_CHILD_PTRACE, signed_drop_bit 8 (si_status info), False)
         else Some (NIH_CHILD_TRAPPED, si_status info, False))
      else if si_code info = CLD_STOPPED then Some (NIH_CHILD_STOPPED, si_status info, False)
      else if si_code info = CLD_CONTINUED then Some (NIH_CHILD_CONTINUED, si_status info, False)
      else None)"

text \<open>
  The \<^verbatim>\<open>NIH_LIST_FOREACH_SAFE\<close> loop over the watches: the list as the loop leaves it
  and the handler calls it made.
\<close>

fun nih_child_poll_foreach ::
  "pid_t \<Rightarrow> NihChildEvents \<Rightarrow> 32 word \<Rightarrow> bool \<Rightarrow> NihChildWatch list
     \<Rightarrow> NihChildWatch list \<times> child_event list" where
  "nih_child_poll_foreach pid event status free_watch [] = ([], [])"
| "nih_child_poll_foreach pid event status free_watch (watch # iter) =
     (let (rest, calls) = nih_child_poll_foreach pid event status free_watch iter in
      if watch_pid watch \<noteq> pid \<and> watch_pid watch \<noteq> -1 then (watch # rest, calls)
      else if watch_events watch AND event = 0 then (watch # rest, calls)
      else
        (if free_watch \<and> watch_pid watch \<noteq> -1 then rest else watch # rest,
         Handler watch pid event status # calls))"

text \<open>
  One turn of the \<^verbatim>\<open>while\<close> loop: \<open>Done\<close> when the loop is left (or the process aborts),
  \<open>Again\<close> with the state at the end of the loop body otherwise.
\<close>

datatype turn = Done "error + child_state" | Again child_state

definition nih_child_poll_body :: "child_state \<Rightarrow> turn" where
  "nih_child_poll_body s =
     (let (ret, info) = waitid_nowait (child_kernel s);
          s = s\<lparr> child_trace := child_trace s @ [Waitid_nowait ret info] \<rparr>
      in
      if ret \<noteq> 0 then Done (Inr s)
      else
        let pid = si_pid info in
        if pid = 0 then Done (Inr s)
        else
          case nih_child_poll_switch info of
            None \<Rightarrow> Done (Inl AssertionFailed)
          | Some (event, status, free_watch) \<Rightarrow>
              let (list, calls) =
                    nih_child_poll_foreach pid event status free_watch (child_watches s);
                  s = s\<lparr> child_watches := list, child_trace := child_trace s @ calls \<rparr>;
                  s = s\<lparr> child_kernel := waitid_pid pid (child_kernel s),
                         child_trace := child_trace s @ [Waitid_pid pid] \<rparr>
              in Again s)"

function nih_child_poll :: "child_state \<Rightarrow> error + child_state" where
  "nih_child_poll s =
     (case nih_child_poll_body s of
        Done result \<Rightarrow> result
      | Again s' \<Rightarrow> nih_child_poll s')"
  by pat_completeness auto

text \<open>
  The loop ends: a turn that goes on has consumed the transition at the head of the
  kernel's list.
\<close>

lemma nih_child_poll_body_Again_pending:
  assumes "nih_child_poll_body s = Again s'"
  shows "\<exists>info rest. pending (child_kernel s) = info # rest \<and> pending (child_kernel s') = rest"
proof (cases "pending (child_kernel s)")
  case Nil
  then show ?thesis using assms
    by (simp add: nih_child_poll_body_def waitid_nowait_def Let_def split: if_splits)
next
  case (Cons info rest)
  then show ?thesis using assms
    by (auto simp: nih_child_poll_body_def waitid_nowait_def waitid_pid_def Let_def
             split: if_splits option.splits prod.splits)
qed

termination nih_child_poll
proof (relation "measure (\<lambda>s. length (pending (child_kernel s)))")
  show "wf (measure (\<lambda>s. length (pending (child_kernel s))))" by simp
next
  fix s s'
  assume "nih_child_poll_body s = Again s'"
  from nih_child_poll_body_Again_pending [OF this]
  show "(s', s) \<in> measure (\<lambda>s. length (pending (child_kernel s)))" by auto
qed

section \<open>Observing a run\<close>

text \<open>
  A timer is known by the address of its structure. \<open>timers_at a list\<close> are the entries
  of the list that live at address \<open>a\<close>: none when no timer is registered there, one
  when one is. \<open>calls_of a calls\<close> are the calls that were handed the timer at \<open>a\<close>, and
  \<open>calls_since s s'\<close> the calls made on the way from state \<open>s\<close> to state \<open>s'\<close>.
\<close>

definition timers_at :: "nat \<Rightarrow> 's NihTimer list \<Rightarrow> 's NihTimer list" where
  "timers_at a list = filter (\<lambda>timer. timer_entry timer = a) list"

definition calls_of :: "nat \<Rightarrow> timer_call list \<Rightarrow> timer_call list" where
  "calls_of a calls = filter (\<lambda>(callback, data, timer). timer = a) calls"

definition calls_since :: "'s timer_state \<Rightarrow> 's timer_state \<Rightarrow> timer_call list" where
  "calls_since s s' = drop (length (timer_calls s)) (timer_calls s')"

text \<open>
  For the watches: \<open>watch_matches pid event watch\<close> says that the watch is for this pid
  or for every child and that its mask holds the event; an event is \<open>terminal\<close> when it
  is one of exited, killed and dumped. \<open>child_since s s'\<close> is what was done on the way
  from \<open>s\<close> to \<open>s'\<close>, \<open>terminal_call a\<close> picks the handler calls for a terminal event
  that went to the watch at address \<open>a\<close>, and \<open>known_code\<close> says that a transition carries
  one of the six codes of the \<^verbatim>\<open>switch\<close>.
\<close>

definition watch_matches :: "pid_t \<Rightarrow> NihChildEvents \<Rightarrow> NihChildWatch \<Rightarrow> bool" where
  "watch_matches pid event watch \<longleftrightarrow>
     (watch_pid watch = pid \<or> watch_pid watch = -1) \<and> watch_events watch AND event \<noteq> 0"

definition terminal :: "NihChildEvents \<Rightarrow> bool" where
  "terminal event \<longleftrightarrow>
     event = NIH_CHILD_EXITED \<or> event = NIH_CHILD_KILLED \<or> event = NIH_CHILD_DUMPED"

definition child_since :: "child_state \<Rightarrow> child_state \<Rightarrow> child_event list" where
  "child_since s s' = drop (length (child_trace s)) (child_trace s')"

fun terminal_call :: "nat \<Rightarrow> child_event \<Rightarrow> bool" where
  "terminal_call a (Handler watch pid event status) = (watch_entry watch = a \<and> terminal event)"
| "terminal_call a (Waitid_nowait ret info) = False"
| "terminal_call a (Waitid_pid pid) = False"

definition known_code :: "siginfo_t \<Rightarrow> bool" where
  "known_code info \<longleftrightarrow>
     si_code info \<in> {CLD_EXITED, CLD_KILLED, CLD_DUMPED, CLD_TRAPPED, CLD_STOPPED, CLD_CONTINUED}"


fun peeked :: "child_event list \<Rightarrow> siginfo_t list" where
  "peeked [] = []"
| "peeked (Waitid_nowait ret info # es) =
     (if ret = 0 \<and> si_pid info \<noteq> 0 then info # peeked es else peeked es)"
| "peeked (Handler watch pid event status # es) = peeked es"
| "peeked (Waitid_pid pid # es) = peeked es"


text \<open>
  \<open>dispatched info event status free_watch s\<close> is the state at the end of a loop body
  that found the transition \<open>info\<close> in state \<open>s\<close>, written with \<open>filter\<close> and \<open>map\<close>.
\<close>

definition dispatched ::
  "siginfo_t \<Rightarrow> NihChildEvents \<Rightarrow> 32 word \<Rightarrow> bool \<Rightarrow> child_state \<Rightarrow> child_state" where
  "dispatched info event status free_watch s =
     s\<lparr> child_watches :=
          filter (\<lambda>watch. \<not> (watch_matches (si_pid info) event watch
                               \<and> free_watch \<and> watch_pid watch \<noteq> -1))
            (child_watches s),
        child_kernel := (child_kernel s)\<lparr> pending := tl (pending (child_kernel s)) \<rparr>,
        child_trace := child_trace s @ [Waitid_nowait 0 info]
          @ map (\<lambda>watch. Handler watch (si_pid info) event status)
              (filter (watch_matches (si_pid info) event) (child_watches s))
          @ [Waitid_pid (si_pid info)] \<rparr>"

section \<open>The timer with the lowest due time\<close>

text \<open>
  With \<open>next\<close> already set to \<open>n\<close>, the loop either keeps \<open>n\<close>, and then nothing in the
  rest of the list is due earlier, or it ends on the first entry of the rest whose due time
  is the lowest of all.
\<close>

lemma next_due_loop_Some:
  "(next_due_loop (Some n) ts = Some n \<and> (\<forall>j<length ts. timer_due n \<le> timer_due (ts ! j)))
   \<or> (\<exists>i<length ts. next_due_loop (Some n) ts = Some (ts ! i)
         \<and> timer_due (ts ! i) < timer_due n
         \<and> (\<forall>j<length ts. timer_due (ts ! i) \<le> timer_due (ts ! j))
         \<and> (\<forall>j<i. timer_due (ts ! i) < timer_due (ts ! j)))"
proof (induction ts arbitrary: n)
  case Nil
  then show ?case by simp
next
  case (Cons t ts)
  show ?case
  proof (cases "timer_due t < timer_due n")
    case True
    from Cons.IH [of t] show ?thesis
    proof
      assume a: "next_due_loop (Some t) ts = Some t \<and> (\<forall>j<length ts. timer_due t \<le> timer_due (ts ! j))"
      have "0 < length (t # ts)" by simp
      moreover have "next_due_loop (Some n) (t # ts) = Some ((t # ts) ! 0)"
        using a True by simp
      moreover have "timer_due ((t # ts) ! 0) < timer_due n" using True by simp
      moreover have "\<forall>j<length (t # ts). timer_due ((t # ts) ! 0) \<le> timer_due ((t # ts) ! j)"
        using a by (simp add: nth_Cons split: nat.split)
      ultimately show ?thesis by blast
    next
      assume "\<exists>i<length ts. next_due_loop (Some t) ts = Some (ts ! i)
         \<and> timer_due (ts ! i) < timer_due t
         \<and> (\<forall>j<length ts. timer_due (ts ! i) \<le> timer_due (ts ! j))
         \<and> (\<forall>j<i. timer_due (ts ! i) < timer_due (ts ! j))"
      then obtain i where i: "i < length ts" "next_due_loop (Some t) ts = Some (ts ! i)"
        "timer_due (ts ! i) < timer_due t"
        "\<forall>j<length ts. timer_due (ts ! i) \<le> timer_due (ts ! j)"
        "\<forall>j<i. timer_due (ts ! i) < timer_due (ts ! j)" by blast
      have "Suc i < length (t # ts)" using i(1) by simp
      moreover have "next_due_loop (Some n) (t # ts) = Some ((t # ts) ! Suc i)"
        using i(2) True by simp
      moreover have "timer_due ((t # ts) ! Suc i) < timer_due n" using i(3) True by simp
      moreover have "\<forall>j<length (t # ts). timer_due ((t # ts) ! Suc i) \<le> timer_due ((t # ts) ! j)"
        using i(3,4) by (simp add: nth_Cons split: nat.split)
      moreover have "\<forall>j<Suc i. timer_due ((t # ts) ! Suc i) < timer_due ((t # ts) ! j)"
        using i(3,5) by (simp add: nth_Cons split: nat.split)
      ultimately show ?thesis by blast
    qed
  next
    case False
    from Cons.IH [of n] show ?thesis
    proof
      assume a: "next_due_loop (Some n) ts = Some n \<and> (\<forall>j<length ts. timer_due n \<le> timer_due (ts ! j))"
      have "next_due_loop (Some n) (t # ts) = Some n" using a False by simp
      moreover have "\<forall>j<length (t # ts). timer_due n \<le> timer_due ((t # ts) ! j)"
        using a False by (simp add: nth_Cons split: nat.split)
      ultimately show ?thesis by blast
    next
      assume "\<exists>i<length ts. next_due_loop (Some n) ts = Some (ts ! i)
         \<and> timer_due (ts ! i) < timer_due n
         \<and> (\<forall>j<length ts. timer_due (ts ! i) \<le> timer_due (ts ! j))
         \<and> (\<forall>j<i. timer_due (ts ! i) < timer_due (ts ! j))"
      then obtain i where i: "i < length ts" "next_due_loop (Some n) ts = Some (ts ! i)"
        "timer_due (ts ! i) < timer_due n"
        "\<forall>j<length ts. timer_due (ts ! i) \<le> timer_due (ts ! j)"
        "\<forall>j<i. timer_due (ts ! i) < timer_due (ts ! j)" by blast
      have "Suc i < length (t # ts)" using i(1) by simp
      moreover have "next_due_loop (Some n) (t # ts) = Some ((t # ts) ! Suc i)"
        using i(2) False by simp
      moreover have "timer_due ((t # ts) ! Suc i) < timer_due n" using i(3) by simp
      moreover have "\<forall>j<length (t # ts). timer_due ((t # ts) ! Suc i) \<le> timer_due ((t # ts) ! j)"
        using i(3,4) False by (simp add: nth_Cons split: nat.split)
      moreover have "\<forall>j<Suc i. timer_due ((t # ts) ! Suc i) < timer_due ((t # ts) ! j)"
        using i(3,5) False by (simp add: nth_Cons split: nat.split)
      ultimately show ?thesis by blast
    qed
  qed
qed

text \<open>
  Claim C6. \<^verbatim>\<open>nih_timer_next_due\<close> returns \<^verbatim>\<open>NULL\<close> when no timer is registered.
  Otherwise it returns an entry of the list whose due time no other entry undercuts, and
  every entry before it in list order is due strictly later: among equal lowest due times
  the first one met wins. The statement is about every state of the list, so it holds
  for the list left behind by any registration, removal or poll.
\<close>

theorem nih_timer_next_due_minimum:
  "(timers s = [] \<longrightarrow> nih_timer_next_due s = None) \<and>
   (timers s \<noteq> [] \<longrightarrow>
      (\<exists>i<length (timers s).
          nih_timer_next_due s = Some (timers s ! i)
        \<and> (\<forall>j<length (timers s). timer_due (timers s ! i) \<le> timer_due (timers s ! j))
        \<and> (\<forall>j<i. timer_due (timers s ! i) < timer_due (timers s ! j))))"
proof (cases "timers s")
  case Nil
  then show ?thesis by (simp add: nih_timer_next_due_def)
next
  case (Cons t ts)
  have run: "nih_timer_next_due s = next_due_loop (Some t) ts"
    using Cons by (simp add: nih_timer_next_due_def)
  from next_due_loop_Some [of t ts]
  have "\<exists>i<length (t # ts).
          next_due_loop (Some t) ts = Some ((t # ts) ! i)
        \<and> (\<forall>j<length (t # ts). timer_due ((t # ts) ! i) \<le> timer_due ((t # ts) ! j))
        \<and> (\<forall>j<i. timer_due ((t # ts) ! i) < timer_due ((t # ts) ! j))"
  proof
    assume a: "next_due_loop (Some t) ts = Some t \<and> (\<forall>j<length ts. timer_due t \<le> timer_due (ts ! j))"
    have "\<forall>j<length (t # ts). timer_due ((t # ts) ! 0) \<le> timer_due ((t # ts) ! j)"
      using a by (simp add: nth_Cons split: nat.split)
    moreover have "next_due_loop (Some t) ts = Some ((t # ts) ! 0)" using a by simp
    moreover have "0 < length (t # ts)" by simp
    ultimately show ?thesis by blast
  next
    assume "\<exists>i<length ts. next_due_loop (Some t) ts = Some (ts ! i)
         \<and> timer_due (ts ! i) < timer_due t
         \<and> (\<forall>j<length ts. timer_due (ts ! i) \<le> timer_due (ts ! j))
         \<and> (\<forall>j<i. timer_due (ts ! i) < timer_due (ts ! j))"
    then obtain i where i: "i < length ts" "next_due_loop (Some t) ts = Some (ts ! i)"
        "timer_due (ts ! i) < timer_due t"
        "\<forall>j<length ts. timer_due (ts ! i) \<le> timer_due (ts ! j)"
        "\<forall>j<i. timer_due (ts ! i) < timer_due (ts ! j)" by blast
    have "Suc i < length (t # ts)" using i(1) by simp
    moreover have "next_due_loop (Some t) ts = Some ((t # ts) ! Suc i)" using i(2) by simp
    moreover have "\<forall>j<length (t # ts). timer_due ((t # ts) ! Suc i) \<le> timer_due ((t # ts) ! j)"
      using i(3,4) by (simp add: nth_Cons split: nat.split)
    moreover have "\<forall>j<Suc i. timer_due ((t # ts) ! Suc i) < timer_due ((t # ts) ! j)"
      using i(3,5) by (simp add: nth_Cons split: nat.split)
    ultimately show ?thesis by blast
  qed
  then show ?thesis using Cons run by simp
qed

theorem nih_timer_next_due_minimum_witness:
  "nih_timer_next_due \<lparr> timers = ([] :: unit NihTimer list), timer_calls = [] \<rparr> = None \<and>
   nih_timer_next_due
        \<lparr> timers =
            [\<lparr> timer_entry = 1, timer_due = 5, timer_type = NIH_TIMER_TIMEOUT 5,
               timer_callback = 7, timer_data = 0 \<rparr>,
             \<lparr> timer_entry = 2, timer_due = 3, timer_type = NIH_TIMER_PERIODIC 3,
               timer_callback = 7, timer_data = 0 \<rparr>,
             \<lparr> timer_entry = 3, timer_due = 3, timer_type = NIH_TIMER_SCHEDULED (),
               timer_callback = 7, timer_data = 0 \<rparr>],
           timer_calls = [] \<rparr>
      = Some \<lparr> timer_entry = 2, timer_due = 3, timer_type = NIH_TIMER_PERIODIC 3,
               timer_callback = 7, timer_data = 0 \<rparr>"
  using nih_timer_next_due_minimum
          [of "\<lparr> timers = ([] :: unit NihTimer list), timer_calls = [] \<rparr>"]
        nih_timer_next_due_minimum
          [of "\<lparr> timers =
            [\<lparr> timer_entry = 1, timer_due = 5, timer_type = NIH_TIMER_TIMEOUT 5,
               timer_callback = 7, timer_data = 0 \<rparr>,
             \<lparr> timer_entry = 2, timer_due = 3, timer_type = NIH_TIMER_PERIODIC 3,
               timer_callback = 7, timer_data = 0 \<rparr>,
             \<lparr> timer_entry = 3, timer_due = 3, timer_type = NIH_TIMER_SCHEDULED (),
               timer_callback = 7, timer_data = 0 \<rparr>],
           timer_calls = [] \<rparr>"]
  by (simp add: nih_timer_next_due_def)

section \<open>One timer in a poll\<close>

text \<open>
  The loop of \<^verbatim>\<open>nih_timer_poll\<close> treats every entry on its own, so what happens to the
  timer at one address, and the calls it receives, can be read off a run of the loop on
  that timer alone.
\<close>

lemma timers_at_poll_loop:
  "timers_at a (fst (timer_poll_loop now list)) = fst (timer_poll_loop now (timers_at a list))"
  by (induction list)
     (auto simp: timers_at_def Let_def split: prod.splits NihTimerType.splits)

lemma calls_of_poll_loop:
  "calls_of a (snd (timer_poll_loop now list)) = snd (timer_poll_loop now (timers_at a list))"
  by (induction list)
     (auto simp: timers_at_def calls_of_def Let_def split: prod.splits NihTimerType.splits)

lemma nih_timer_poll_timers:
  "timers (nih_timer_poll now s) = fst (timer_poll_loop now (timers s))"
  by (simp add: nih_timer_poll_def split: prod.splits)

lemma nih_timer_poll_calls:
  "timer_calls (nih_timer_poll now s) = timer_calls s @ snd (timer_poll_loop now (timers s))"
  by (simp add: nih_timer_poll_def split: prod.splits)


lemma calls_since_poll:
  "calls_since s (nih_timer_poll now s) = snd (timer_poll_loop now (timers s))"
  by (simp add: calls_since_def nih_timer_poll_calls)

lemma nih_timer_polls_calls_prefix:
  "\<exists>calls. timer_calls (nih_timer_polls nows s) = timer_calls s @ calls"
proof (induction nows arbitrary: s)
  case Nil
  show ?case by simp
next
  case (Cons now nows)
  from Cons [of "nih_timer_poll now s"] show ?case
    by (auto simp: nih_timer_poll_calls)
qed

lemma calls_since_polls_Cons:
  "calls_since s (nih_timer_polls (now # nows) s) =
     calls_since s (nih_timer_poll now s)
       @ calls_since (nih_timer_poll now s) (nih_timer_polls nows (nih_timer_poll now s))"
proof -
  obtain calls where
    "timer_calls (nih_timer_polls nows (nih_timer_poll now s)) =
       timer_calls (nih_timer_poll now s) @ calls"
    using nih_timer_polls_calls_prefix by blast
  then show ?thesis
    by (simp add: calls_since_def nih_timer_poll_calls)
qed

lemma calls_of_append: "calls_of a (xs @ ys) = calls_of a xs @ calls_of a ys"
  by (simp add: calls_of_def)

lemma timers_at_poll:
  "timers_at a (timers (nih_timer_poll now s)) = fst (timer_poll_loop now (timers_at a (timers s)))"
  by (simp add: nih_timer_poll_timers timers_at_poll_loop)

lemma calls_of_poll:
  "calls_of a (calls_since s (nih_timer_poll now s)) = snd (timer_poll_loop now (timers_at a (timers s)))"
  by (simp add: calls_since_poll calls_of_poll_loop)

lemma timers_at_add:
  "a \<notin> timer_entry ` set list \<Longrightarrow> timer_entry timer = a \<Longrightarrow>
   timers_at a (nih_list_add list timer) = [timer]"
proof -
  assume fresh: "a \<notin> timer_entry ` set list" and a: "timer_entry timer = a"
  have "filter (\<lambda>timer. timer_entry timer = a) list = []"
    using fresh by (induction list) auto
  then show ?thesis
    using a by (simp add: timers_at_def nih_list_add_def)
qed

lemma next_due_loop_least:
  "\<exists>n. next_due_loop (Some m) list = Some n \<and> n \<in> set (m # list)
       \<and> (\<forall>u\<in>set (m # list). timer_due n \<le> timer_due u)"
proof (induction list arbitrary: m)
  case Nil
  show ?case by simp
next
  case (Cons t list)
  show ?case
  proof (cases "timer_due t < timer_due m")
    case True
    from Cons [of t] obtain n where
      "next_due_loop (Some t) list = Some n" "n \<in> set (t # list)"
      "\<forall>u\<in>set (t # list). timer_due n \<le> timer_due u" by blast
    with True show ?thesis by auto
  next
    case False
    from Cons [of m] obtain n where
      "next_due_loop (Some m) list = Some n" "n \<in> set (m # list)"
      "\<forall>u\<in>set (m # list). timer_due n \<le> timer_due u" by blast
    with False show ?thesis by auto
  qed
qed

lemma nih_timer_next_due_least:
  assumes "timers s \<noteq> []"
  shows "\<exists>n. nih_timer_next_due s = Some n \<and> n \<in> set (timers s)
           \<and> (\<forall>u\<in>set (timers s). timer_due n \<le> timer_due u)"
proof -
  obtain t list where l: "timers s = t # list"
    using assms by (cases "timers s") auto
  from next_due_loop_least [of t list] show ?thesis
    by (simp add: nih_timer_next_due_def l)
qed

lemma timers_at_member: "timers_at a list = [t] \<Longrightarrow> t \<in> set list"
proof -
  assume "timers_at a list = [t]"
  then have "t \<in> set (filter (\<lambda>timer. timer_entry timer = a) list)"
    by (simp add: timers_at_def)
  then show ?thesis by simp
qed

section \<open>Scheduled timers\<close>

lemma scheduled_poll:
  assumes "timers_at a (timers s) = [t]" "timer_type t = NIH_TIMER_SCHEDULED sched" "timer_due t = 0"
  shows "timers_at a (timers (nih_timer_poll now s)) = [t]"
    and "calls_of a (calls_since s (nih_timer_poll now s)) =
           (if 0 \<le> now then [(timer_callback t, timer_data t, timer_entry t)] else [])"
  using assms by (auto simp: timers_at_poll calls_of_poll)

lemma scheduled_polls:
  assumes "timers_at a (timers s) = [t]" "timer_type t = NIH_TIMER_SCHEDULED sched" "timer_due t = 0"
  shows "timers_at a (timers (nih_timer_polls nows s)) = [t] \<and>
         calls_of a (calls_since s (nih_timer_polls nows s)) =
           replicate (length (filter (\<lambda>now. 0 \<le> now) nows))
             (timer_callback t, timer_data t, timer_entry t)"
  using assms
proof (induction nows arbitrary: s)
  case Nil
  then show ?case by (simp add: calls_since_def calls_of_def)
next
  case (Cons now nows)
  have 1: "timers_at a (timers (nih_timer_poll now s)) = [t]"
    using scheduled_poll(1) [OF Cons.prems] .
  have 2: "calls_of a (calls_since s (nih_timer_poll now s)) =
           (if 0 \<le> now then [(timer_callback t, timer_data t, timer_entry t)] else [])"
    using scheduled_poll(2) [OF Cons.prems] .
  have 3: "calls_of a (calls_since s (nih_timer_polls (now # nows) s)) =
      calls_of a (calls_since s (nih_timer_poll now s))
        @ calls_of a (calls_since (nih_timer_poll now s) (nih_timer_polls nows (nih_timer_poll now s)))"
    by (simp only: calls_since_polls_Cons calls_of_append)
  from Cons.IH [OF 1 Cons.prems(2,3)] 2 show ?case
    unfolding 3 by simp
qed

text \<open>
  Claim C1, as the code has it. A scheduled timer is registered with due time 0 and keeps
  that due time through every poll, and no poll removes it. The test of \<^verbatim>\<open>nih_timer_poll\<close>
  skips a timer only when its due time is greater than \<open>now\<close>, and 0 is not greater than
  any clock value from 0 on: in a run of polls the callback is called once by every poll
  whose clock value is not negative, and only by those.
\<close>

theorem scheduled_timer_fires_at_every_poll:
  assumes "callback \<noteq> NULL" and "new \<noteq> NULL" and "new \<notin> timer_entry ` set (timers s)"
  shows "\<exists>s' t. nih_timer_add_scheduled callback data (Some sched) new s = Inr (new, s')
           \<and> timer_due t = 0
           \<and> timer_type t = NIH_TIMER_SCHEDULED sched
           \<and> (\<forall>nows. timers_at new (timers (nih_timer_polls nows s')) = [t]
                 \<and> calls_of new (calls_since s' (nih_timer_polls nows s')) =
                     replicate (length (filter (\<lambda>now. 0 \<le> now) nows)) (callback, data, new))"
proof -
  define t :: "'a NihTimer" where "t = \<lparr> timer_entry = new, timer_due = 0,
      timer_type = NIH_TIMER_SCHEDULED sched, timer_callback = callback, timer_data = data \<rparr>"
  define s' where "s' = s\<lparr> timers := nih_list_add (timers s) t \<rparr>"
  have add: "nih_timer_add_scheduled callback data (Some sched) new s = Inr (new, s')"
    using assms(1,2) by (simp add: nih_timer_add_scheduled_def s'_def t_def)
  have at: "timers_at new (timers s') = [t]"
    using assms(3) by (simp add: s'_def timers_at_add t_def)
  have "timers_at new (timers (nih_timer_polls nows s')) = [t]
      \<and> calls_of new (calls_since s' (nih_timer_polls nows s')) =
           replicate (length (filter (\<lambda>now. 0 \<le> now) nows)) (callback, data, new)" for nows
    using scheduled_polls [OF at, of sched nows] by (simp add: t_def)
  with add show ?thesis by (auto simp: t_def)
qed

theorem scheduled_timer_fires_at_every_poll_witness:
  "(7::nat) \<noteq> NULL \<and> (1::nat) \<noteq> NULL \<and>
   1 \<notin> timer_entry ` set (timers \<lparr> timers = ([] :: unit NihTimer list), timer_calls = [] \<rparr>) \<and>
   calls_of 1
     (calls_since
        \<lparr> timers = [\<lparr> timer_entry = 1, timer_due = 0, timer_type = NIH_TIMER_SCHEDULED (),
                      timer_callback = 7, timer_data = 0 \<rparr>],
          timer_calls = [] \<rparr>
        (nih_timer_polls [100, -1, 200]
           \<lparr> timers = [\<lparr> timer_entry = 1, timer_due = 0, timer_type = NIH_TIMER_SCHEDULED (),
                         timer_callback = 7, timer_data = 0 \<rparr>],
             timer_calls = [] \<rparr>))
     = [(7, 0, 1), (7, 0, 1)]"
proof -
  let ?s = "\<lparr> timers = ([] :: unit NihTimer list), timer_calls = [] \<rparr>"
  let ?s' = "\<lparr> timers = [\<lparr> timer_entry = 1, timer_due = 0, timer_type = NIH_TIMER_SCHEDULED (),
                      timer_callback = 7, timer_data = 0 \<rparr>],
          timer_calls = [] \<rparr>"
  have h1: "(7::nat) \<noteq> NULL" and h2: "(1::nat) \<noteq> NULL"
    and h3: "1 \<notin> timer_entry ` set (timers ?s)"
    by (simp_all add: NULL_def)
  from scheduled_timer_fires_at_every_poll [OF h1 h2 h3, of 0 "()"]
  obtain s' where add: "nih_timer_add_scheduled 7 0 (Some ()) 1 ?s = Inr (1, s')"
    and calls: "\<forall>nows. calls_of 1 (calls_since s' (nih_timer_polls nows s')) =
                     replicate (length (filter (\<lambda>now. 0 \<le> now) nows)) (7, 0, 1)"
    by blast
  have "s' = ?s'"
    using add h1 h2 by (simp add: nih_timer_add_scheduled_def nih_list_add_def)
  with calls [rule_format, of "[100, -1, 200]"] h1 h2 h3 show ?thesis
    by (simp add: numeral_eq_Suc)
qed

text \<open>
  The claim as the spec states it, that no poll calls the callback of a scheduled timer,
  fails: the timer is registered in an empty list, and the poll at clock value 100 calls
  callback 7 with the timer at address 1.
\<close>

theorem scheduled_timer_never_fires_counterexample:
  "nih_timer_add_scheduled 7 0 (Some ()) 1 \<lparr> timers = [], timer_calls = [] \<rparr> =
     Inr (1, \<lparr> timers = [\<lparr> timer_entry = 1, timer_due = 0, timer_type = NIH_TIMER_SCHEDULED (),
                            timer_callback = 7, timer_data = 0 \<rparr>],
               timer_calls = [] \<rparr>) \<and>
   nih_timer_poll 100
     \<lparr> timers = [\<lparr> timer_entry = 1, timer_due = 0, timer_type = NIH_TIMER_SCHEDULED (),
                   timer_callback = 7, timer_data = 0 \<rparr>],
       timer_calls = [] \<rparr> =
     \<lparr> timers = [\<lparr> timer_entry = 1, timer_due = 0, timer_type = NIH_TIMER_SCHEDULED (),
                   timer_callback = 7, timer_data = 0 \<rparr>],
       timer_calls = [(7, 0, 1)] \<rparr>"
  by (simp add: nih_timer_add_scheduled_def nih_timer_poll_def nih_list_add_def NULL_def)

section \<open>Sums that fit\<close>

lemma time_t_wrap_fits: "time_t_fits x \<Longrightarrow> time_t_wrap x = x"
proof -
  assume "time_t_fits x"
  then have "0 \<le> x + 2 ^ 63" and "x + 2 ^ 63 < (2 ^ 64 :: int)"
    by (simp_all add: time_t_fits_def)
  then have "(x + 2 ^ 63) mod 2 ^ 64 = x + 2 ^ 63"
    by (rule mod_pos_pos_trivial)
  then show ?thesis by (simp add: time_t_wrap_def)
qed

lemma time_t_wrap_range: "time_t_fits (time_t_wrap x)"
proof -
  have "0 \<le> (x + 2 ^ 63) mod (2 ^ 64 :: int)" and "(x + 2 ^ 63) mod 2 ^ 64 < (2 ^ 64 :: int)"
    by simp_all
  then show ?thesis by (simp add: time_t_wrap_def time_t_fits_def)
qed

section \<open>Periodic timers\<close>

lemma periodic_poll:
  assumes "timers_at a (timers s) = [t]" "timer_type t = NIH_TIMER_PERIODIC p"
  shows "timers_at a (timers (nih_timer_poll now s)) =
           [if timer_due t \<le> now then t\<lparr> timer_due := time_t_wrap (now + p) \<rparr> else t]"
    and "calls_of a (calls_since s (nih_timer_poll now s)) =
           (if timer_due t \<le> now then [(timer_callback t, timer_data t, timer_entry t)] else [])"
  using assms by (auto simp: timers_at_poll calls_of_poll)

lemma periodic_polls:
  assumes "timers_at a (timers s) = [t]" "timer_type t = NIH_TIMER_PERIODIC p"
  shows "\<exists>due. timers_at a (timers (nih_timer_polls nows s)) = [t\<lparr> timer_due := due \<rparr>]"
  using assms
proof (induction nows arbitrary: s t)
  case Nil
  have "t\<lparr> timer_due := timer_due t \<rparr> = t" by simp
  with Nil show ?case by (metis nih_timer_polls.simps(1))
next
  case (Cons now nows)
  let ?t = "if timer_due t \<le> now then t\<lparr> timer_due := time_t_wrap (now + p) \<rparr> else t"
  have 1: "timers_at a (timers (nih_timer_poll now s)) = [?t]"
    using periodic_poll(1) [OF Cons.prems] .
  have 2: "timer_type ?t = NIH_TIMER_PERIODIC p" using Cons.prems(2) by simp
  from Cons.IH [OF 1 2] obtain due where
    "timers_at a (timers (nih_timer_polls nows (nih_timer_poll now s))) = [?t\<lparr> timer_due := due \<rparr>]"
    by blast
  moreover have "?t\<lparr> timer_due := due \<rparr> = t\<lparr> timer_due := due \<rparr>" by simp
  ultimately show ?case by auto
qed

text \<open>
  Claim C2, as the code has it. A periodic timer is registered with a period above 0 and
  the due time \<open>T + period\<close>, wrapped to 64 bits. After any run of polls it is still
  registered, with some due time \<open>due\<close>. A poll at a clock value \<open>now\<close> of at least
  \<open>due\<close> calls its callback once and sets the due time to the wrapped \<open>now + period\<close>;
  when \<open>now + period\<close> is a value of \<^verbatim>\<open>time_t\<close> that is \<open>now + period\<close> itself, later
  than \<open>due\<close> by the period or more (by the period exactly when the poll comes at
  \<open>now = due\<close>). An earlier poll leaves the timer as it is and does not call it.
\<close>

theorem periodic_timer_rescheduled_from_now:
  assumes "nih_timer_add_periodic callback data period T new s = Inr (new, s0)"
    and "new \<noteq> NULL" and "new \<notin> timer_entry ` set (timers s)"
  shows "0 < period \<and>
     timers_at new (timers s0) =
       [\<lparr> timer_entry = new, timer_due = time_t_wrap (T + period),
          timer_type = NIH_TIMER_PERIODIC period,
          timer_callback = callback, timer_data = data \<rparr>] \<and>
     (time_t_fits (T + period) \<longrightarrow> time_t_wrap (T + period) = T + period) \<and>
     (\<forall>nows. \<exists>due.
        timers_at new (timers (nih_timer_polls nows s0)) =
          [\<lparr> timer_entry = new, timer_due = due, timer_type = NIH_TIMER_PERIODIC period,
             timer_callback = callback, timer_data = data \<rparr>] \<and>
        (\<forall>now.
           (due \<le> now \<longrightarrow>
              timers_at new (timers (nih_timer_poll now (nih_timer_polls nows s0))) =
                [\<lparr> timer_entry = new, timer_due = time_t_wrap (now + period),
                   timer_type = NIH_TIMER_PERIODIC period,
                   timer_callback = callback, timer_data = data \<rparr>] \<and>
              calls_of new (calls_since (nih_timer_polls nows s0)
                              (nih_timer_poll now (nih_timer_polls nows s0))) =
                [(callback, data, new)] \<and>
              (time_t_fits (now + period) \<longrightarrow>
                 time_t_wrap (now + period) = now + period \<and>
                 due + period \<le> now + period \<and> due < now + period)) \<and>
           (now < due \<longrightarrow>
              timers_at new (timers (nih_timer_poll now (nih_timer_polls nows s0))) =
                [\<lparr> timer_entry = new, timer_due = due, timer_type = NIH_TIMER_PERIODIC period,
                   timer_callback = callback, timer_data = data \<rparr>] \<and>
              calls_of new (calls_since (nih_timer_polls nows s0)
                              (nih_timer_poll now (nih_timer_polls nows s0))) = [])))"
proof -
  define t :: "'a NihTimer" where "t = \<lparr> timer_entry = new, timer_due = time_t_wrap (T + period),
      timer_type = NIH_TIMER_PERIODIC period, timer_callback = callback, timer_data = data \<rparr>"
  have ok: "callback \<noteq> NULL" "0 < period"
    using assms(1) by (auto simp: nih_timer_add_periodic_def split: if_splits)
  have s0: "s0 = s\<lparr> timers := nih_list_add (timers s) t \<rparr>"
    using assms(1,2) ok by (simp add: nih_timer_add_periodic_def t_def)
  have at: "timers_at new (timers s0) = [t]"
    using assms(3) by (simp add: s0 timers_at_add t_def)
  have ty: "timer_type t = NIH_TIMER_PERIODIC period" by (simp add: t_def)
  have first: "time_t_fits (T + period) \<longrightarrow> time_t_wrap (T + period) = T + period"
    by (simp add: time_t_wrap_fits)
  have later: "\<exists>due.
        timers_at new (timers (nih_timer_polls nows s0)) = [t\<lparr> timer_due := due \<rparr>] \<and>
        (\<forall>now.
           (due \<le> now \<longrightarrow>
              timers_at new (timers (nih_timer_poll now (nih_timer_polls nows s0))) =
                [t\<lparr> timer_due := time_t_wrap (now + period) \<rparr>] \<and>
              calls_of new (calls_since (nih_timer_polls nows s0)
                              (nih_timer_poll now (nih_timer_polls nows s0))) =
                [(callback, data, new)] \<and>
              (time_t_fits (now + period) \<longrightarrow>
                 time_t_wrap (now + period) = now + period \<and>
                 due + period \<le> now + period \<and> due < now + period)) \<and>
           (now < due \<longrightarrow>
              timers_at new (timers (nih_timer_poll now (nih_timer_polls nows s0))) =
                [t\<lparr> timer_due := due \<rparr>] \<and>
              calls_of new (calls_since (nih_timer_polls nows s0)
                              (nih_timer_poll now (nih_timer_polls nows s0))) = []))" for nows
  proof -
    from periodic_polls [OF at ty, of nows] obtain due where
      d: "timers_at new (timers (nih_timer_polls nows s0)) = [t\<lparr> timer_due := due \<rparr>]" by blast
    have ty': "timer_type (t\<lparr> timer_due := due \<rparr>) = NIH_TIMER_PERIODIC period"
      by (simp add: t_def)
    have "timers_at new (timers (nih_timer_poll now (nih_timer_polls nows s0))) =
            [if due \<le> now then t\<lparr> timer_due := time_t_wrap (now + period) \<rparr>
             else t\<lparr> timer_due := due \<rparr>]"
      and "calls_of new (calls_since (nih_timer_polls nows s0)
                              (nih_timer_poll now (nih_timer_polls nows s0))) =
            (if due \<le> now then [(callback, data, new)] else [])" for now
      using periodic_poll [OF d ty', of now] by (simp_all add: t_def)
    with d ok(2) show ?thesis by (auto simp: time_t_wrap_fits)
  qed
  show ?thesis using ok(2) at first later by (simp add: t_def)
qed

theorem periodic_timer_rescheduled_from_now_witness:
  "nih_timer_add_periodic 7 0 10 0 1 \<lparr> timers = [], timer_calls = [] \<rparr> =
     Inr (1, \<lparr> timers = [\<lparr> timer_entry = 1, timer_due = 10, timer_type = NIH_TIMER_PERIODIC 10,
                            timer_callback = 7, timer_data = 0 \<rparr>],
               timer_calls = [] \<rparr> :: unit timer_state) \<and>
   (1::nat) \<noteq> NULL \<and>
   1 \<notin> timer_entry ` set (timers \<lparr> timers = ([] :: unit NihTimer list), timer_calls = [] \<rparr>) \<and>
   time_t_fits (0 + 10) \<and>
   (0::int) < 10 \<and>
   timers_at 1 (timers \<lparr> timers = [\<lparr> timer_entry = 1, timer_due = 10,
                                     timer_type = NIH_TIMER_PERIODIC 10,
                                     timer_callback = 7, timer_data = 0 \<rparr>],
                          timer_calls = [] \<rparr>) =
     [\<lparr> timer_entry = 1, timer_due = 0 + 10, timer_type = NIH_TIMER_PERIODIC 10,
        timer_callback = 7, timer_data = 0 \<rparr> :: unit NihTimer]"
proof -
  let ?s = "\<lparr> timers = ([] :: unit NihTimer list), timer_calls = [] \<rparr>"
  let ?after = "\<lparr> timers = [\<lparr> timer_entry = 1, timer_due = 10, timer_type = NIH_TIMER_PERIODIC 10,
                            timer_callback = 7, timer_data = 0 \<rparr>],
               timer_calls = [] \<rparr> :: unit timer_state"
  have h1: "nih_timer_add_periodic 7 0 10 0 1 ?s = Inr (1, ?after)"
    by (simp add: nih_timer_add_periodic_def nih_list_add_def NULL_def time_t_wrap_def)
  have h2: "(1::nat) \<noteq> NULL" by (simp add: NULL_def)
  have h3: "1 \<notin> timer_entry ` set (timers ?s)" by simp
  have h4: "time_t_fits (0 + 10)" by (simp add: time_t_fits_def)
  from periodic_timer_rescheduled_from_now [OF h1 h2 h3]
  have "(0::int) < 10" and "timers_at 1 (timers ?after) =
     [\<lparr> timer_entry = 1, timer_due = time_t_wrap (0 + 10), timer_type = NIH_TIMER_PERIODIC 10,
        timer_callback = 7, timer_data = 0 \<rparr>]"
    and "time_t_fits (0 + 10) \<longrightarrow> time_t_wrap (0 + 10) = (0 + 10 :: int)"
    by blast+
  with h4 have "(0::int) < 10 \<and> timers_at 1 (timers ?after) =
     [\<lparr> timer_entry = 1, timer_due = 0 + 10, timer_type = NIH_TIMER_PERIODIC 10,
        timer_callback = 7, timer_data = 0 \<rparr>]"
    by simp
  with h1 h2 h3 h4 show ?thesis by simp
qed

text \<open>
  The claim as the spec states it, that every fire moves the due time on by the period
  exactly, fails in two ways. When the poll is late: a timer of period 10 registered at
  time 0 is due at 10, and the poll at time 13 sets the due time to 23. When the sum does
  not fit: a timer of period \<open>2^63 - 1\<close> registered at time 0 is due at \<open>2^63 - 1\<close>, and
  the poll at that time sets the due time to -2, which is earlier.
\<close>

theorem periodic_due_increases_by_period_counterexample:
  "nih_timer_add_periodic 7 0 10 0 1 \<lparr> timers = [], timer_calls = [] \<rparr> =
     Inr (1, \<lparr> timers = [\<lparr> timer_entry = 1, timer_due = 10, timer_type = NIH_TIMER_PERIODIC 10,
                            timer_callback = 7, timer_data = 0 \<rparr>],
               timer_calls = ([] :: timer_call list) \<rparr> :: unit timer_state) \<and>
   nih_timer_poll 13
     \<lparr> timers = [\<lparr> timer_entry = 1, timer_due = 10, timer_type = NIH_TIMER_PERIODIC 10,
                   timer_callback = 7, timer_data = 0 \<rparr>],
       timer_calls = [] \<rparr> =
     (\<lparr> timers = [\<lparr> timer_entry = 1, timer_due = 23, timer_type = NIH_TIMER_PERIODIC 10,
                   timer_callback = 7, timer_data = 0 \<rparr>],
       timer_calls = [(7, 0, 1)] \<rparr> :: unit timer_state) \<and>
   (23::int) - 10 \<noteq> 10 \<and>
   nih_timer_add_periodic 7 0 9223372036854775807 0 1 \<lparr> timers = [], timer_calls = [] \<rparr> =
     Inr (1, \<lparr> timers = [\<lparr> timer_entry = 1, timer_due = 9223372036854775807,
                            timer_type = NIH_TIMER_PERIODIC 9223372036854775807,
                            timer_callback = 7, timer_data = 0 \<rparr>],
               timer_calls = ([] :: timer_call list) \<rparr> :: unit timer_state) \<and>
   nih_timer_poll 9223372036854775807
     \<lparr> timers = [\<lparr> timer_entry = 1, timer_due = 9223372036854775807,
                   timer_type = NIH_TIMER_PERIODIC 9223372036854775807,
                   timer_callback = 7, timer_data = 0 \<rparr>],
       timer_calls = [] \<rparr> =
     (\<lparr> timers = [\<lparr> timer_entry = 1, timer_due = - 2,
                   timer_type = NIH_TIMER_PERIODIC 9223372036854775807,
                   timer_callback = 7, timer_data = 0 \<rparr>],
       timer_calls = [(7, 0, 1)] \<rparr> :: unit timer_state)"
  by (simp add: nih_timer_add_periodic_def nih_timer_poll_def nih_list_add_def NULL_def
        time_t_wrap_def)

section \<open>Timeouts\<close>

lemma timeout_poll:
  assumes "timers_at a (timers s) = [t]" "timer_type t = NIH_TIMER_TIMEOUT timeout"
  shows "timers_at a (timers (nih_timer_poll now s)) = (if timer_due t \<le> now then [] else [t])"
    and "calls_of a (calls_since s (nih_timer_poll now s)) =
           (if timer_due t \<le> now then [(timer_callback t, timer_data t, timer_entry t)] else [])"
  using assms by (auto simp: timers_at_poll calls_of_poll)

lemma timeout_polls_early:
  assumes "timers_at a (timers s) = [t]" "timer_type t = NIH_TIMER_TIMEOUT timeout"
    and "\<forall>now\<in>set nows. now < timer_due t"
  shows "timers_at a (timers (nih_timer_polls nows s)) = [t] \<and>
         calls_of a (calls_since s (nih_timer_polls nows s)) = []"
  using assms
proof (induction nows arbitrary: s)
  case Nil
  then show ?case by (simp add: calls_since_def calls_of_def)
next
  case (Cons now nows)
  have early: "\<not> timer_due t \<le> now" using Cons.prems(3) by simp
  have 1: "timers_at a (timers (nih_timer_poll now s)) = [t]"
    using timeout_poll(1) [OF Cons.prems(1,2), of now] early by simp
  have 2: "calls_of a (calls_since s (nih_timer_poll now s)) = []"
    using timeout_poll(2) [OF Cons.prems(1,2), of now] early by simp
  have 3: "calls_of a (calls_since s (nih_timer_polls (now # nows) s)) =
      calls_of a (calls_since s (nih_timer_poll now s))
        @ calls_of a (calls_since (nih_timer_poll now s) (nih_timer_polls nows (nih_timer_poll now s)))"
    by (simp only: calls_since_polls_Cons calls_of_append)
  have 4: "\<forall>now\<in>set nows. now < timer_due t" using Cons.prems(3) by simp
  from Cons.IH [OF 1 Cons.prems(2) 4] 2 show ?case
    unfolding 3 by simp
qed

text \<open>
  Claim C7, as the code has it. \<^verbatim>\<open>nih_timer_add_timeout\<close> at time \<open>T\<close>, with a timeout
  for which \<open>T + timeout\<close> is a value of \<^verbatim>\<open>time_t\<close>, registers a timer whose due time is
  \<open>T + timeout\<close>. Through every run of polls that all come before that time the timer
  stays registered as it is and is not called, so \<^verbatim>\<open>nih_timer_next_due\<close> returns a timer
  that is due at \<open>T + timeout\<close> at the latest, and due at \<open>T + timeout\<close> when no
  registered timer is due earlier. The first poll at or after \<open>T + timeout\<close> calls the
  callback once and frees the timer: no timer is registered at its address afterwards.
\<close>

theorem timeout_timer_due_and_removed:
  assumes "nih_timer_add_timeout callback data timeout T new s = Inr (new, s0)"
    and "new \<noteq> NULL" and "new \<notin> timer_entry ` set (timers s)"
    and "time_t_fits (T + timeout)"
  shows "\<exists>t. timer_due t = T + timeout \<and> timers_at new (timers s0) = [t] \<and>
     (\<forall>nows. (\<forall>now\<in>set nows. now < T + timeout) \<longrightarrow>
        timers_at new (timers (nih_timer_polls nows s0)) = [t] \<and>
        calls_of new (calls_since s0 (nih_timer_polls nows s0)) = [] \<and>
        (\<exists>n. nih_timer_next_due (nih_timer_polls nows s0) = Some n \<and>
             timer_due n \<le> T + timeout \<and>
             ((\<forall>u\<in>set (timers (nih_timer_polls nows s0)). T + timeout \<le> timer_due u)
                \<longrightarrow> timer_due n = T + timeout)) \<and>
        (\<forall>now. T + timeout \<le> now \<longrightarrow>
           timers_at new (timers (nih_timer_poll now (nih_timer_polls nows s0))) = [] \<and>
           calls_of new (calls_since (nih_timer_polls nows s0)
                           (nih_timer_poll now (nih_timer_polls nows s0))) =
             [(callback, data, new)]))"
proof -
  define t :: "'a NihTimer" where "t = \<lparr> timer_entry = new, timer_due = T + timeout,
      timer_type = NIH_TIMER_TIMEOUT timeout, timer_callback = callback, timer_data = data \<rparr>"
  have ok: "callback \<noteq> NULL"
    using assms(1) by (auto simp: nih_timer_add_timeout_def split: if_splits)
  have s0: "s0 = s\<lparr> timers := nih_list_add (timers s) t \<rparr>"
    using assms(1,2) ok time_t_wrap_fits [OF assms(4)]
    by (simp add: nih_timer_add_timeout_def t_def)
  have at: "timers_at new (timers s0) = [t]"
    using assms(3) by (simp add: s0 timers_at_add t_def)
  have ty: "timer_type t = NIH_TIMER_TIMEOUT timeout" by (simp add: t_def)
  have due: "timer_due t = T + timeout" by (simp add: t_def)
  have main: "timers_at new (timers (nih_timer_polls nows s0)) = [t] \<and>
        calls_of new (calls_since s0 (nih_timer_polls nows s0)) = [] \<and>
        (\<exists>n. nih_timer_next_due (nih_timer_polls nows s0) = Some n \<and>
             timer_due n \<le> T + timeout \<and>
             ((\<forall>u\<in>set (timers (nih_timer_polls nows s0)). T + timeout \<le> timer_due u)
                \<longrightarrow> timer_due n = T + timeout)) \<and>
        (\<forall>now. T + timeout \<le> now \<longrightarrow>
           timers_at new (timers (nih_timer_poll now (nih_timer_polls nows s0))) = [] \<and>
           calls_of new (calls_since (nih_timer_polls nows s0)
                           (nih_timer_poll now (nih_timer_polls nows s0))) =
             [(callback, data, new)])"
    if early: "\<forall>now\<in>set nows. now < T + timeout" for nows
  proof -
    let ?s1 = "nih_timer_polls nows s0"
    have e: "\<forall>now\<in>set nows. now < timer_due t" using early due by simp
    have 1: "timers_at new (timers ?s1) = [t]"
      and 2: "calls_of new (calls_since s0 ?s1) = []"
      using timeout_polls_early [OF at ty e] by simp_all
    have mem: "t \<in> set (timers ?s1)" using timers_at_member [OF 1] .
    then have "timers ?s1 \<noteq> []" by auto
    from nih_timer_next_due_least [OF this] obtain n where
      n: "nih_timer_next_due ?s1 = Some n" "n \<in> set (timers ?s1)"
         "\<forall>u\<in>set (timers ?s1). timer_due n \<le> timer_due u" by blast
    have le: "timer_due n \<le> T + timeout" using n(3) mem due by force
    have eq: "timer_due n = T + timeout"
      if "\<forall>u\<in>set (timers ?s1). T + timeout \<le> timer_due u"
      using that n(2) le by force
    have 3: "timers_at new (timers (nih_timer_poll now ?s1)) = []"
      and 4: "calls_of new (calls_since ?s1 (nih_timer_poll now ?s1)) = [(callback, data, new)]"
      if "T + timeout \<le> now" for now
      using timeout_poll [OF 1 ty, of now] that due by (simp_all add: t_def)
    show ?thesis using 1 2 n(1) le eq 3 4 by blast
  qed
  show ?thesis using due at main by blast
qed

theorem timeout_timer_due_and_removed_witness:
  "nih_timer_add_timeout 7 0 5 0 1 \<lparr> timers = [], timer_calls = [] \<rparr> =
     Inr (1, \<lparr> timers = [\<lparr> timer_entry = 1, timer_due = 5, timer_type = NIH_TIMER_TIMEOUT 5,
                            timer_callback = 7, timer_data = 0 \<rparr>],
               timer_calls = [] \<rparr> :: unit timer_state) \<and>
   (1::nat) \<noteq> NULL \<and>
   1 \<notin> timer_entry ` set (timers \<lparr> timers = ([] :: unit NihTimer list), timer_calls = [] \<rparr>) \<and>
   time_t_fits (0 + 5) \<and>
   (1::int) < 0 + 5 \<and> (4::int) < 0 + 5 \<and>
   timers_at 1 (timers (nih_timer_poll 5 (nih_timer_polls [1, 4]
      (\<lparr> timers = [\<lparr> timer_entry = 1, timer_due = 5, timer_type = NIH_TIMER_TIMEOUT 5,
                            timer_callback = 7, timer_data = 0 \<rparr>],
               timer_calls = [] \<rparr> :: unit timer_state)))) = []"
proof -
  let ?s = "\<lparr> timers = ([] :: unit NihTimer list), timer_calls = [] \<rparr>"
  let ?after = "\<lparr> timers = [\<lparr> timer_entry = 1, timer_due = 5, timer_type = NIH_TIMER_TIMEOUT 5,
                            timer_callback = 7, timer_data = 0 \<rparr>],
               timer_calls = [] \<rparr> :: unit timer_state"
  have h1: "nih_timer_add_timeout 7 0 5 0 1 ?s = Inr (1, ?after)"
    by (simp add: nih_timer_add_timeout_def nih_list_add_def NULL_def time_t_wrap_def)
  have h2: "(1::nat) \<noteq> NULL" by (simp add: NULL_def)
  have h3: "1 \<notin> timer_entry ` set (timers ?s)" by simp
  have h5: "time_t_fits (0 + 5)" by (simp add: time_t_fits_def)
  have h4: "\<forall>now\<in>set [1, 4 :: int]. now < 0 + 5" by simp
  from timeout_timer_due_and_removed [OF h1 h2 h3 h5]
  obtain t where
    "\<forall>nows. (\<forall>now\<in>set nows. now < 0 + 5) \<longrightarrow>
        (\<forall>now. 0 + 5 \<le> now \<longrightarrow>
           timers_at 1 (timers (nih_timer_poll now (nih_timer_polls nows ?after))) = [])"
    by blast
  with h4 have "\<forall>now. 0 + 5 \<le> now \<longrightarrow>
           timers_at 1 (timers (nih_timer_poll now (nih_timer_polls [1, 4] ?after))) = []"
    by blast
  then have "timers_at 1 (timers (nih_timer_poll 5 (nih_timer_polls [1, 4] ?after))) = []"
    by simp
  with h1 h2 h3 h4 h5 show ?thesis by simp
qed

text \<open>
  The claim as the spec states it fails in two ways. \<^verbatim>\<open>nih_timer_next_due\<close> does not
  report \<open>T + timeout\<close> when another timer is due earlier: with a periodic timer due at 3
  in the list, a timeout of 5 registered at time 0 is due at 5, and \<^verbatim>\<open>nih_timer_next_due\<close>
  returns the periodic timer. And the due time is not \<open>T + timeout\<close> when that sum does
  not fit: a timeout of \<open>2^63 - 1\<close> registered at time 1 is due at \<open>- 2^63\<close>, and the poll
  at time 2 calls it and frees it.
\<close>

theorem timeout_next_due_counterexample:
  "nih_timer_add_timeout 7 0 5 0 2
     \<lparr> timers = [\<lparr> timer_entry = 1, timer_due = 3, timer_type = NIH_TIMER_PERIODIC 3,
                   timer_callback = 7, timer_data = 0 \<rparr>],
       timer_calls = [] \<rparr> =
     Inr (2, \<lparr> timers = [\<lparr> timer_entry = 1, timer_due = 3, timer_type = NIH_TIMER_PERIODIC 3,
                            timer_callback = 7, timer_data = 0 \<rparr>,
                          \<lparr> timer_entry = 2, timer_due = 5, timer_type = NIH_TIMER_TIMEOUT 5,
                            timer_callback = 7, timer_data = 0 \<rparr>],
               timer_calls = [] \<rparr> :: unit timer_state) \<and>
   nih_timer_next_due
     \<lparr> timers = [\<lparr> timer_entry = 1, timer_due = 3, timer_type = NIH_TIMER_PERIODIC 3,
                   timer_callback = 7, timer_data = 0 \<rparr>,
                 \<lparr> timer_entry = 2, timer_due = 5, timer_type = NIH_TIMER_TIMEOUT 5,
                   timer_callback = 7, timer_data = 0 \<rparr>],
       timer_calls = [] \<rparr> =
     Some (\<lparr> timer_entry = 1, timer_due = 3, timer_type = NIH_TIMER_PERIODIC 3,
             timer_callback = 7, timer_data = 0 \<rparr> :: unit NihTimer) \<and>
   (3::int) \<noteq> 0 + 5 \<and>
   nih_timer_add_timeout 7 0 9223372036854775807 1 1 \<lparr> timers = [], timer_calls = [] \<rparr> =
     Inr (1, \<lparr> timers = [\<lparr> timer_entry = 1, timer_due = - 9223372036854775808,
                            timer_type = NIH_TIMER_TIMEOUT 9223372036854775807,
                            timer_callback = 7, timer_data = 0 \<rparr>],
               timer_calls = [] \<rparr> :: unit timer_state) \<and>
   nih_timer_poll 2
     \<lparr> timers = [\<lparr> timer_entry = 1, timer_due = - 9223372036854775808,
                   timer_type = NIH_TIMER_TIMEOUT 9223372036854775807,
                   timer_callback = 7, timer_data = 0 \<rparr>],
       timer_calls = [] \<rparr> =
     (\<lparr> timers = [], timer_calls = [(7, 0, 1)] \<rparr> :: unit timer_state) \<and>
   (2::int) < 1 + 9223372036854775807"
  by (simp add: nih_timer_add_timeout_def nih_timer_next_due_def nih_timer_poll_def
        nih_list_add_def NULL_def time_t_wrap_def)

section \<open>Registration\<close>

text \<open>
  Claim C9. Each of the four registration functions aborts on a failed assertion when its
  contract is broken (a null callback or handler, a period that is not positive, a null
  schedule, pid 0). With the contract kept it returns \<^verbatim>\<open>NULL\<close> exactly when \<^verbatim>\<open>nih_new\<close>
  did, and then the state is the one it was called in; otherwise it returns the new
  structure.
\<close>

theorem add_fails_only_without_memory:
  "(callback = NULL \<longrightarrow> nih_timer_add_timeout callback data timeout now new s = Inl AssertionFailed) \<and>
   (callback \<noteq> NULL \<and> new = NULL \<longrightarrow>
      nih_timer_add_timeout callback data timeout now new s = Inr (NULL, s)) \<and>
   (callback \<noteq> NULL \<and> new \<noteq> NULL \<longrightarrow>
      (\<exists>s'. nih_timer_add_timeout callback data timeout now new s = Inr (new, s'))) \<and>
   (callback = NULL \<or> period \<le> 0 \<longrightarrow>
      nih_timer_add_periodic callback data period now new s = Inl AssertionFailed) \<and>
   (callback \<noteq> NULL \<and> 0 < period \<and> new = NULL \<longrightarrow>
      nih_timer_add_periodic callback data period now new s = Inr (NULL, s)) \<and>
   (callback \<noteq> NULL \<and> 0 < period \<and> new \<noteq> NULL \<longrightarrow>
      (\<exists>s'. nih_timer_add_periodic callback data period now new s = Inr (new, s'))) \<and>
   (callback = NULL \<or> schedule = None \<longrightarrow>
      nih_timer_add_scheduled callback data schedule new s = Inl AssertionFailed) \<and>
   (callback \<noteq> NULL \<and> schedule \<noteq> None \<and> new = NULL \<longrightarrow>
      nih_timer_add_scheduled callback data schedule new s = Inr (NULL, s)) \<and>
   (callback \<noteq> NULL \<and> schedule \<noteq> None \<and> new \<noteq> NULL \<longrightarrow>
      (\<exists>s'. nih_timer_add_scheduled callback data schedule new s = Inr (new, s'))) \<and>
   (pid = 0 \<or> handler = NULL \<longrightarrow>
      nih_child_add_watch parent pid events handler wdata new c = Inl AssertionFailed) \<and>
   (pid \<noteq> 0 \<and> handler \<noteq> NULL \<and> new = NULL \<longrightarrow>
      nih_child_add_watch parent pid events handler wdata new c = Inr (NULL, c)) \<and>
   (pid \<noteq> 0 \<and> handler \<noteq> NULL \<and> new \<noteq> NULL \<longrightarrow>
      (\<exists>c'. nih_child_add_watch parent pid events handler wdata new c = Inr (new, c')))"
proof -
  have timeout: "(callback = NULL \<longrightarrow> nih_timer_add_timeout callback data timeout now new s = Inl AssertionFailed) \<and>
   (callback \<noteq> NULL \<and> new = NULL \<longrightarrow>
      nih_timer_add_timeout callback data timeout now new s = Inr (NULL, s)) \<and>
   (callback \<noteq> NULL \<and> new \<noteq> NULL \<longrightarrow>
      (\<exists>s'. nih_timer_add_timeout callback data timeout now new s = Inr (new, s')))"
    by (simp add: nih_timer_add_timeout_def)
  have periodic: "(callback = NULL \<or> period \<le> 0 \<longrightarrow>
      nih_timer_add_periodic callback data period now new s = Inl AssertionFailed) \<and>
   (callback \<noteq> NULL \<and> 0 < period \<and> new = NULL \<longrightarrow>
      nih_timer_add_periodic callback data period now new s = Inr (NULL, s)) \<and>
   (callback \<noteq> NULL \<and> 0 < period \<and> new \<noteq> NULL \<longrightarrow>
      (\<exists>s'. nih_timer_add_periodic callback data period now new s = Inr (new, s')))"
    by (auto simp: nih_timer_add_periodic_def)
  have scheduled: "(callback = NULL \<or> schedule = None \<longrightarrow>
      nih_timer_add_scheduled callback data schedule new s = Inl AssertionFailed) \<and>
   (callback \<noteq> NULL \<and> schedule \<noteq> None \<and> new = NULL \<longrightarrow>
      nih_timer_add_scheduled callback data schedule new s = Inr (NULL, s)) \<and>
   (callback \<noteq> NULL \<and> schedule \<noteq> None \<and> new \<noteq> NULL \<longrightarrow>
      (\<exists>s'. nih_timer_add_scheduled callback data schedule new s = Inr (new, s')))"
    by (auto simp: nih_timer_add_scheduled_def split: option.splits)
  have watch: "(pid = 0 \<or> handler = NULL \<longrightarrow>
      nih_child_add_watch parent pid events handler wdata new c = Inl AssertionFailed) \<and>
   (pid \<noteq> 0 \<and> handler \<noteq> NULL \<and> new = NULL \<longrightarrow>
      nih_child_add_watch parent pid events handler wdata new c = Inr (NULL, c)) \<and>
   (pid \<noteq> 0 \<and> handler \<noteq> NULL \<and> new \<noteq> NULL \<longrightarrow>
      (\<exists>c'. nih_child_add_watch parent pid events handler wdata new c = Inr (new, c')))"
    by (auto simp: nih_child_add_watch_def)
  from timeout periodic scheduled watch show ?thesis by blast
qed

theorem add_fails_only_without_memory_witness:
  "nih_timer_add_timeout 0 0 5 0 1 \<lparr> timers = ([] :: unit NihTimer list), timer_calls = [] \<rparr>
     = Inl AssertionFailed \<and>
   nih_timer_add_periodic 0 0 0 0 1 \<lparr> timers = ([] :: unit NihTimer list), timer_calls = [] \<rparr>
     = Inl AssertionFailed \<and>
   nih_timer_add_scheduled 0 0 None 1 \<lparr> timers = ([] :: unit NihTimer list), timer_calls = [] \<rparr>
     = Inl AssertionFailed \<and>
   nih_child_add_watch 0 0 1 0 0 1
       \<lparr> child_watches = [], child_kernel = \<lparr> pending = [], waitid_idle = 0 \<rparr>, child_trace = [] \<rparr>
     = Inl AssertionFailed \<and>
   nih_timer_add_timeout 7 0 5 0 0 \<lparr> timers = ([] :: unit NihTimer list), timer_calls = [] \<rparr>
     = Inr (NULL, \<lparr> timers = [], timer_calls = [] \<rparr>) \<and>
   nih_timer_add_periodic 7 0 10 0 0 \<lparr> timers = ([] :: unit NihTimer list), timer_calls = [] \<rparr>
     = Inr (NULL, \<lparr> timers = [], timer_calls = [] \<rparr>) \<and>
   nih_timer_add_scheduled 7 0 (Some ()) 0 \<lparr> timers = [], timer_calls = [] \<rparr>
     = Inr (NULL, \<lparr> timers = [], timer_calls = [] \<rparr>) \<and>
   nih_child_add_watch 0 (-1) 1 7 0 0
       \<lparr> child_watches = [], child_kernel = \<lparr> pending = [], waitid_idle = 0 \<rparr>, child_trace = [] \<rparr>
     = Inr (NULL, \<lparr> child_watches = [], child_kernel = \<lparr> pending = [], waitid_idle = 0 \<rparr>,
                    child_trace = [] \<rparr>)"
  using add_fails_only_without_memory
          [of 0 0 5 0 1 "\<lparr> timers = ([] :: unit NihTimer list), timer_calls = [] \<rparr>"
              0 None 0 0 0 1 0
              "\<lparr> child_watches = [], child_kernel = \<lparr> pending = [], waitid_idle = 0 \<rparr>,
                 child_trace = [] \<rparr>"]
        add_fails_only_without_memory
          [of 7 0 5 0 0 "\<lparr> timers = ([] :: unit NihTimer list), timer_calls = [] \<rparr>"
              10 "Some ()" "-1" 7 0 1 0
              "\<lparr> child_watches = [], child_kernel = \<lparr> pending = [], waitid_idle = 0 \<rparr>,
                 child_trace = [] \<rparr>"]
  by (simp add: NULL_def)

section \<open>The loop over the watches and one turn of the poll\<close>

lemma foreach_calls:
  "snd (nih_child_poll_foreach pid event status free_watch list) =
     map (\<lambda>watch. Handler watch pid event status) (filter (watch_matches pid event) list)"
  by (induction list) (auto simp: watch_matches_def split: prod.splits)

lemma foreach_list:
  "fst (nih_child_poll_foreach pid event status free_watch list) =
     filter (\<lambda>watch. \<not> (watch_matches pid event watch \<and> free_watch \<and> watch_pid watch \<noteq> -1)) list"
  by (induction list) (auto simp: watch_matches_def split: prod.splits)

lemma switch_free_watch:
  assumes "nih_child_poll_switch info = Some (event, status, free_watch)"
  shows "free_watch \<longleftrightarrow> terminal event"
  using assms
  by (auto simp: nih_child_poll_switch_def terminal_def
        NIH_CHILD_EXITED_def NIH_CHILD_KILLED_def NIH_CHILD_DUMPED_def NIH_CHILD_STOPPED_def
        NIH_CHILD_CONTINUED_def NIH_CHILD_TRAPPED_def NIH_CHILD_PTRACE_def
        split: if_splits)

lemma body_dispatch:
  assumes "pending (child_kernel s) = info # rest" and "si_pid info \<noteq> 0"
    and "nih_child_poll_switch info = Some (event, status, free_watch)"
  shows "nih_child_poll_body s =
     Again (s\<lparr> child_watches :=
                 filter (\<lambda>watch. \<not> (watch_matches (si_pid info) event watch
                                      \<and> free_watch \<and> watch_pid watch \<noteq> -1))
                   (child_watches s),
               child_kernel := (child_kernel s)\<lparr> pending := rest \<rparr>,
               child_trace := child_trace s @ [Waitid_nowait 0 info]
                 @ map (\<lambda>watch. Handler watch (si_pid info) event status)
                     (filter (watch_matches (si_pid info) event) (child_watches s))
                 @ [Waitid_pid (si_pid info)] \<rparr>)"
proof -
  obtain list calls where f:
    "nih_child_poll_foreach (si_pid info) event status free_watch (child_watches s) = (list, calls)"
    by (cases "nih_child_poll_foreach (si_pid info) event status free_watch (child_watches s)")
  have l: "list = filter (\<lambda>watch. \<not> (watch_matches (si_pid info) event watch
                                      \<and> free_watch \<and> watch_pid watch \<noteq> -1)) (child_watches s)"
    using foreach_list [of "si_pid info" event status free_watch "child_watches s"] f by simp
  have c: "calls = map (\<lambda>watch. Handler watch (si_pid info) event status)
                     (filter (watch_matches (si_pid info) event) (child_watches s))"
    using foreach_calls [of "si_pid info" event status free_watch "child_watches s"] f by simp
  show ?thesis
    using assms f
    by (simp add: nih_child_poll_body_def waitid_nowait_def waitid_pid_def Let_def l c)
qed

lemma body_abort:
  assumes "pending (child_kernel s) = info # rest" and "si_pid info \<noteq> 0"
    and "nih_child_poll_switch info = None"
  shows "nih_child_poll_body s = Done (Inl AssertionFailed)"
  using assms by (simp add: nih_child_poll_body_def waitid_nowait_def Let_def)

lemma body_stop:
  assumes "pending (child_kernel s) = [] \<or> (\<exists>info rest. pending (child_kernel s) = info # rest \<and> si_pid info = 0)"
  shows "nih_child_poll_body s =
     Done (Inr (s\<lparr> child_trace := child_trace s
                  @ [Waitid_nowait (fst (waitid_nowait (child_kernel s)))
                       (snd (waitid_nowait (child_kernel s)))] \<rparr>))"
    and "fst (waitid_nowait (child_kernel s)) \<noteq> 0 \<or> si_pid (snd (waitid_nowait (child_kernel s))) = 0"
  using assms by (auto simp: nih_child_poll_body_def waitid_nowait_def Let_def)

lemma poll_Done: "nih_child_poll_body s = Done result \<Longrightarrow> nih_child_poll s = result"
  by (subst nih_child_poll.simps) simp

lemma poll_Again: "nih_child_poll_body s = Again s' \<Longrightarrow> nih_child_poll s = nih_child_poll s'"
  by (subst nih_child_poll.simps) simp

text \<open>A transition with any other code stops the process in the default case.\<close>

lemma poll_abort:
  assumes "pending (child_kernel s) = info # rest" and "si_pid info \<noteq> 0"
    and "\<not> known_code info"
  shows "nih_child_poll s = Inl AssertionFailed"
proof -
  have "nih_child_poll_switch info = None"
    using assms(3) by (auto simp: known_code_def nih_child_poll_switch_def)
  from body_abort [OF assms(1,2) this] show ?thesis by (rule poll_Done)
qed

lemma body_dispatched:
  assumes "pending (child_kernel s) = info # rest" and "si_pid info \<noteq> 0"
    and "nih_child_poll_switch info = Some (event, status, free_watch)"
  shows "nih_child_poll_body s = Again (dispatched info event status free_watch s)"
  using body_dispatch [OF assms] assms(1) by (simp add: dispatched_def)

text \<open>
  Reasoning about a whole poll: when every pending transition carries a known code the
  poll returns, and a relation between the state it starts in and the state it returns
  holds if it holds for the last turn and is carried backwards over a dispatching turn.
\<close>

lemma poll_run:
  assumes valid: "\<forall>info\<in>set (pending (child_kernel s)). nih_child_poll_switch info \<noteq> None"
    and stop: "\<And>s ret info. ret \<noteq> 0 \<or> si_pid info = 0 \<Longrightarrow>
                 Q s (s\<lparr> child_trace := child_trace s @ [Waitid_nowait ret info] \<rparr>)"
    and step: "\<And>s info rest event status free_watch s'.
                 pending (child_kernel s) = info # rest \<Longrightarrow> si_pid info \<noteq> 0 \<Longrightarrow>
                 \<forall>info\<in>set rest. nih_child_poll_switch info \<noteq> None \<Longrightarrow>
                 nih_child_poll_switch info = Some (event, status, free_watch) \<Longrightarrow>
                 nih_child_poll (dispatched info event status free_watch s) = Inr s' \<Longrightarrow>
                 Q (dispatched info event status free_watch s) s' \<Longrightarrow> Q s s'"
  shows "\<exists>s'. nih_child_poll s = Inr s' \<and> Q s s'"
  using valid
proof (induction "pending (child_kernel s)" arbitrary: s)
  case Nil
  then have e: "pending (child_kernel s) = [] \<or>
      (\<exists>info rest. pending (child_kernel s) = info # rest \<and> si_pid info = 0)" by simp
  from body_stop [OF e] poll_Done stop show ?case by metis
next
  case (Cons info rest)
  have p: "pending (child_kernel s) = info # rest" using Cons.hyps(2) by simp
  show ?case
  proof (cases "si_pid info = 0")
    case True
    with p have e: "pending (child_kernel s) = [] \<or>
      (\<exists>info rest. pending (child_kernel s) = info # rest \<and> si_pid info = 0)" by simp
    from body_stop [OF e] poll_Done stop show ?thesis by metis
  next
    case False
    from Cons.prems p have "nih_child_poll_switch info \<noteq> None" by simp
    then obtain event status free_watch where
      sw: "nih_child_poll_switch info = Some (event, status, free_watch)" by auto
    let ?n = "dispatched info event status free_watch s"
    have body: "nih_child_poll_body s = Again ?n"
      using body_dispatched [OF p False sw] .
    have pn: "rest = pending (child_kernel ?n)" using p by (simp add: dispatched_def)
    have vn: "\<forall>info\<in>set (pending (child_kernel ?n)). nih_child_poll_switch info \<noteq> None"
      using Cons.prems p pn by simp
    from Cons.hyps(1) [OF pn vn] obtain s' where
      r: "nih_child_poll ?n = Inr s'" and q: "Q ?n s'" by blast
    have "nih_child_poll s = Inr s'" using poll_Again [OF body] r by simp
    moreover have "Q s s'" using step [OF p False _ sw r q] vn pn by simp
    ultimately show ?thesis by blast
  qed
qed

lemma poll_trace:
  assumes "\<forall>info\<in>set (pending (child_kernel s)). nih_child_poll_switch info \<noteq> None"
  shows "\<exists>s'. nih_child_poll s = Inr s' \<and> (\<exists>es. child_trace s' = child_trace s @ es)"
  by (rule poll_run [OF assms]) (auto simp: dispatched_def)

lemma poll_watches:
  assumes "\<forall>info\<in>set (pending (child_kernel s)). nih_child_poll_switch info \<noteq> None"
  shows "\<exists>s'. nih_child_poll s = Inr s' \<and> (\<exists>P. child_watches s' = filter P (child_watches s))"
proof (rule poll_run [OF assms])
  fix s :: child_state and ret info
  have "child_watches s = filter (\<lambda>w. True) (child_watches s)" by simp
  then show "\<exists>P. child_watches (s\<lparr> child_trace := child_trace s @ [Waitid_nowait ret info] \<rparr>)
                = filter P (child_watches s)"
    by (metis child_state.select_convs(1) child_state.surjective child_state.update_convs(3))
next
  fix s info rest event status free_watch s'
  assume "\<exists>P. child_watches s' = filter P (child_watches (dispatched info event status free_watch s))"
  then obtain P where "child_watches s' = filter P (child_watches (dispatched info event status free_watch s))"
    by blast
  then have "child_watches s' =
      filter (\<lambda>watch. \<not> (watch_matches (si_pid info) event watch
                               \<and> free_watch \<and> watch_pid watch \<noteq> -1) \<and> P watch) (child_watches s)"
    by (simp add: dispatched_def)
  then show "\<exists>P. child_watches s' = filter P (child_watches s)" by blast
qed

lemma since_stop:
  "child_since s (s\<lparr> child_trace := child_trace s @ es \<rparr>) = es"
  by (simp add: child_since_def)

lemma since_dispatched:
  assumes "child_trace s' = child_trace (dispatched info event status free_watch s) @ es"
  shows "child_since s s' =
     Waitid_nowait 0 info
       # map (\<lambda>watch. Handler watch (si_pid info) event status)
           (filter (watch_matches (si_pid info) event) (child_watches s))
       @ Waitid_pid (si_pid info) # child_since (dispatched info event status free_watch s) s'"
  using assms by (simp add: child_since_def dispatched_def)

lemma dispatched_pending:
  "pending (child_kernel s) = info # rest \<Longrightarrow>
   pending (child_kernel (dispatched info event status free_watch s)) = rest"
  by (simp add: dispatched_def)

lemma dispatched_watches:
  "child_watches (dispatched info event status free_watch s) =
     filter (\<lambda>watch. \<not> (watch_matches (si_pid info) event watch
                               \<and> free_watch \<and> watch_pid watch \<noteq> -1)) (child_watches s)"
  by (simp add: dispatched_def)

lemma poll_since_dispatched:
  assumes "pending (child_kernel s) = info # rest"
    and "\<forall>info\<in>set rest. nih_child_poll_switch info \<noteq> None"
    and "nih_child_poll (dispatched info event status free_watch s) = Inr s'"
  shows "child_since s s' =
     Waitid_nowait 0 info
       # map (\<lambda>watch. Handler watch (si_pid info) event status)
           (filter (watch_matches (si_pid info) event) (child_watches s))
       @ Waitid_pid (si_pid info) # child_since (dispatched info event status free_watch s) s'"
    and "\<exists>P. child_watches s' = filter P (child_watches (dispatched info event status free_watch s))"
proof -
  let ?d = "dispatched info event status free_watch s"
  have v: "\<forall>info\<in>set (pending (child_kernel ?d)). nih_child_poll_switch info \<noteq> None"
    using assms(1,2) by (simp add: dispatched_pending)
  from poll_trace [OF v] assms(3) obtain es where "child_trace s' = child_trace ?d @ es" by auto
  then show "child_since s s' =
     Waitid_nowait 0 info
       # map (\<lambda>watch. Handler watch (si_pid info) event status)
           (filter (watch_matches (si_pid info) event) (child_watches s))
       @ Waitid_pid (si_pid info) # child_since ?d s'"
    by (rule since_dispatched)
  from poll_watches [OF v] assms(3)
  show "\<exists>P. child_watches s' = filter P (child_watches ?d)" by auto
qed

lemma poll_calls_registered:
  assumes "\<forall>info\<in>set (pending (child_kernel s)). nih_child_poll_switch info \<noteq> None"
  shows "\<exists>s'. nih_child_poll s = Inr s' \<and>
     (\<forall>watch pid event status.
        Handler watch pid event status \<in> set (child_since s s') \<longrightarrow> watch \<in> set (child_watches s))"
proof (rule poll_run [OF assms])
  fix s :: child_state and ret info
  show "\<forall>watch pid event status.
        Handler watch pid event status
          \<in> set (child_since s (s\<lparr> child_trace := child_trace s @ [Waitid_nowait ret info] \<rparr>))
        \<longrightarrow> watch \<in> set (child_watches s)"
    by (simp add: since_stop)
next
  fix s info rest event status free_watch s'
  assume p: "pending (child_kernel s) = info # rest"
    and v: "\<forall>info\<in>set rest. nih_child_poll_switch info \<noteq> None"
    and r: "nih_child_poll (dispatched info event status free_watch s) = Inr s'"
    and q: "\<forall>watch pid event' status'.
        Handler watch pid event' status' \<in> set (child_since (dispatched info event status free_watch s) s')
        \<longrightarrow> watch \<in> set (child_watches (dispatched info event status free_watch s))"
  show "\<forall>watch pid event status.
        Handler watch pid event status \<in> set (child_since s s') \<longrightarrow> watch \<in> set (child_watches s)"
    using q unfolding poll_since_dispatched(1) [OF p v r]
    by (auto simp: dispatched_watches)
qed

lemma entry_absent_filter:
  assumes "distinct (map watch_entry list)" and "watch \<in> set list" and "\<not> P watch"
  shows "watch_entry watch \<notin> watch_entry ` set (filter P list)"
proof
  assume "watch_entry watch \<in> watch_entry ` set (filter P list)"
  then obtain other where o: "other \<in> set list" "P other" "watch_entry other = watch_entry watch"
    by auto
  from assms(1) have "inj_on watch_entry (set list)" by (simp add: distinct_map)
  with o(1,3) assms(2) have "other = watch" by (auto dest: inj_onD)
  with o(2) assms(3) show False by simp
qed

lemma poll_terminal_released:
  assumes "\<forall>info\<in>set (pending (child_kernel s)). nih_child_poll_switch info \<noteq> None"
  shows "\<exists>s'. nih_child_poll s = Inr s' \<and>
     (distinct (map watch_entry (child_watches s)) \<longrightarrow>
      (\<forall>watch pid event status.
         Handler watch pid event status \<in> set (child_since s s') \<and> terminal event
           \<and> watch_pid watch \<noteq> -1
         \<longrightarrow> watch_entry watch \<notin> watch_entry ` set (child_watches s')))"
proof (rule poll_run [OF assms])
  fix s :: child_state and ret info
  show "distinct (map watch_entry (child_watches s)) \<longrightarrow>
      (\<forall>watch pid event status.
         Handler watch pid event status
           \<in> set (child_since s (s\<lparr> child_trace := child_trace s @ [Waitid_nowait ret info] \<rparr>))
           \<and> terminal event \<and> watch_pid watch \<noteq> -1
         \<longrightarrow> watch_entry watch
               \<notin> watch_entry ` set (child_watches (s\<lparr> child_trace := child_trace s @ [Waitid_nowait ret info] \<rparr>)))"
    by (simp add: since_stop)
next
  fix s info rest event status free_watch s'
  let ?d = "dispatched info event status free_watch s"
  assume p: "pending (child_kernel s) = info # rest"
    and v: "\<forall>info\<in>set rest. nih_child_poll_switch info \<noteq> None"
    and sw: "nih_child_poll_switch info = Some (event, status, free_watch)"
    and r: "nih_child_poll ?d = Inr s'"
    and q: "distinct (map watch_entry (child_watches ?d)) \<longrightarrow>
      (\<forall>watch pid event' status'.
         Handler watch pid event' status' \<in> set (child_since ?d s') \<and> terminal event'
           \<and> watch_pid watch \<noteq> -1
         \<longrightarrow> watch_entry watch \<notin> watch_entry ` set (child_watches s'))"
  from poll_since_dispatched(2) [OF p v r] obtain P where
    w': "child_watches s' = filter P (child_watches ?d)" by blast
  show "distinct (map watch_entry (child_watches s)) \<longrightarrow>
      (\<forall>watch pid event status.
         Handler watch pid event status \<in> set (child_since s s') \<and> terminal event
           \<and> watch_pid watch \<noteq> -1
         \<longrightarrow> watch_entry watch \<notin> watch_entry ` set (child_watches s'))"
  proof (intro impI allI)
    fix watch pid event' status'
    assume d: "distinct (map watch_entry (child_watches s))"
      and h: "Handler watch pid event' status' \<in> set (child_since s s') \<and> terminal event'
           \<and> watch_pid watch \<noteq> -1"
    have dd: "distinct (map watch_entry (child_watches ?d))"
      using d by (simp add: dispatched_watches distinct_map_filter)
    from h have "Handler watch pid event' status'
        \<in> set (map (\<lambda>watch. Handler watch (si_pid info) event status)
                 (filter (watch_matches (si_pid info) event) (child_watches s)))
      \<or> Handler watch pid event' status' \<in> set (child_since ?d s')"
      unfolding poll_since_dispatched(1) [OF p v r] by auto
    then show "watch_entry watch \<notin> watch_entry ` set (child_watches s')"
    proof
      assume "Handler watch pid event' status'
        \<in> set (map (\<lambda>watch. Handler watch (si_pid info) event status)
                 (filter (watch_matches (si_pid info) event) (child_watches s)))"
      then have m: "watch \<in> set (child_watches s)" "watch_matches (si_pid info) event watch"
        and e: "event' = event" by auto
      have "free_watch" using switch_free_watch [OF sw] h e by simp
      with m(2) h have "\<not> \<not> (watch_matches (si_pid info) event watch
                               \<and> free_watch \<and> watch_pid watch \<noteq> -1)" by simp
      from entry_absent_filter [where P = "\<lambda>watch. \<not> (watch_matches (si_pid info) event watch
                               \<and> free_watch \<and> watch_pid watch \<noteq> -1)", OF d m(1) this]
      have "watch_entry watch \<notin> watch_entry ` set (child_watches ?d)"
        by (simp add: dispatched_watches)
      then show ?thesis using w' by auto
    next
      assume "Handler watch pid event' status' \<in> set (child_since ?d s')"
      with q dd h show ?thesis by blast
    qed
  qed
qed

lemma poll_kept:
  assumes "\<forall>info\<in>set (pending (child_kernel s)). nih_child_poll_switch info \<noteq> None"
  shows "\<exists>s'. nih_child_poll s = Inr s' \<and>
     (\<forall>watch\<in>set (child_watches s).
        (\<forall>pid event status.
           Handler watch pid event status \<in> set (child_since s s') \<longrightarrow>
           \<not> (terminal event \<and> watch_pid watch = pid \<and> watch_pid watch \<noteq> -1
               \<and> watch_events watch AND event \<noteq> 0))
        \<longrightarrow> watch \<in> set (child_watches s'))"
proof (rule poll_run [OF assms])
  fix s :: child_state and ret info
  show "\<forall>watch\<in>set (child_watches s).
        (\<forall>pid event status.
           Handler watch pid event status
             \<in> set (child_since s (s\<lparr> child_trace := child_trace s @ [Waitid_nowait ret info] \<rparr>)) \<longrightarrow>
           \<not> (terminal event \<and> watch_pid watch = pid \<and> watch_pid watch \<noteq> -1
               \<and> watch_events watch AND event \<noteq> 0))
        \<longrightarrow> watch \<in> set (child_watches (s\<lparr> child_trace := child_trace s @ [Waitid_nowait ret info] \<rparr>))"
    by simp
next
  fix s info rest event status free_watch s'
  let ?d = "dispatched info event status free_watch s"
  assume p: "pending (child_kernel s) = info # rest"
    and v: "\<forall>info\<in>set rest. nih_child_poll_switch info \<noteq> None"
    and sw: "nih_child_poll_switch info = Some (event, status, free_watch)"
    and r: "nih_child_poll ?d = Inr s'"
    and q: "\<forall>watch\<in>set (child_watches ?d).
        (\<forall>pid event' status'.
           Handler watch pid event' status' \<in> set (child_since ?d s') \<longrightarrow>
           \<not> (terminal event' \<and> watch_pid watch = pid \<and> watch_pid watch \<noteq> -1
               \<and> watch_events watch AND event' \<noteq> 0))
        \<longrightarrow> watch \<in> set (child_watches s')"
  show "\<forall>watch\<in>set (child_watches s).
        (\<forall>pid event status.
           Handler watch pid event status \<in> set (child_since s s') \<longrightarrow>
           \<not> (terminal event \<and> watch_pid watch = pid \<and> watch_pid watch \<noteq> -1
               \<and> watch_events watch AND event \<noteq> 0))
        \<longrightarrow> watch \<in> set (child_watches s')"
  proof (intro ballI impI)
    fix watch
    assume m: "watch \<in> set (child_watches s)"
      and n: "\<forall>pid event status.
           Handler watch pid event status \<in> set (child_since s s') \<longrightarrow>
           \<not> (terminal event \<and> watch_pid watch = pid \<and> watch_pid watch \<noteq> -1
               \<and> watch_events watch AND event \<noteq> 0)"
    have s: "child_since s s' =
       Waitid_nowait 0 info
       # map (\<lambda>watch. Handler watch (si_pid info) event status)
           (filter (watch_matches (si_pid info) event) (child_watches s))
       @ Waitid_pid (si_pid info) # child_since ?d s'"
      using poll_since_dispatched(1) [OF p v r] .
    have "\<not> (watch_matches (si_pid info) event watch \<and> free_watch \<and> watch_pid watch \<noteq> -1)"
    proof
      assume a: "watch_matches (si_pid info) event watch \<and> free_watch \<and> watch_pid watch \<noteq> -1"
      then have "Handler watch (si_pid info) event status \<in> set (child_since s s')"
        using m unfolding s by simp
      with n have "\<not> (terminal event \<and> watch_pid watch = si_pid info \<and> watch_pid watch \<noteq> -1
               \<and> watch_events watch AND event \<noteq> 0)" by blast
      moreover have "terminal event" using switch_free_watch [OF sw] a by simp
      ultimately show False using a by (auto simp: watch_matches_def)
    qed
    with m have md: "watch \<in> set (child_watches ?d)" by (simp add: dispatched_watches)
    have "\<forall>pid event' status'.
           Handler watch pid event' status' \<in> set (child_since ?d s') \<longrightarrow>
           \<not> (terminal event' \<and> watch_pid watch = pid \<and> watch_pid watch \<noteq> -1
               \<and> watch_events watch AND event' \<noteq> 0)"
      using n unfolding s by simp
    with q md show "watch \<in> set (child_watches s')" by blast
  qed
qed

lemma at_most_one_at_entry:
  "distinct (map watch_entry list) \<Longrightarrow> length (filter (\<lambda>watch. watch_entry watch = a) list) \<le> 1"
proof (induction list)
  case Nil
  show ?case by simp
next
  case (Cons w list)
  show ?case
  proof (cases "watch_entry w = a")
    case True
    with Cons.prems have "a \<notin> watch_entry ` set list" by auto
    then have "filter (\<lambda>watch. watch_entry watch = a) list = []"
      by (auto simp: filter_empty_conv)
    with True show ?thesis by simp
  next
    case False
    with Cons show ?thesis by simp
  qed
qed

lemma terminal_calls_map:
  "filter (terminal_call a) (map (\<lambda>watch. Handler watch pid event status) list) =
     (if terminal event
      then map (\<lambda>watch. Handler watch pid event status) (filter (\<lambda>watch. watch_entry watch = a) list)
      else [])"
  by (induction list) auto

lemma no_calls_at_absent_entry:
  assumes "\<forall>watch pid event status. Handler watch pid event status \<in> set es \<longrightarrow> watch \<in> set list"
    and "a \<notin> watch_entry ` set list"
  shows "filter (terminal_call a) es = []"
proof -
  have "\<not> terminal_call a e" if "e \<in> set es" for e
  proof (cases e)
    case (Handler watch pid event status)
    with that assms(1) have "watch \<in> set list" by blast
    with assms(2) have "watch_entry watch \<noteq> a" by auto
    with Handler show ?thesis by simp
  qed simp_all
  then show ?thesis by (auto simp: filter_empty_conv)
qed

lemma poll_terminal_once:
  assumes "\<forall>info\<in>set (pending (child_kernel s)). nih_child_poll_switch info \<noteq> None"
  shows "\<exists>s'. nih_child_poll s = Inr s' \<and>
     (distinct (map watch_entry (child_watches s)) \<longrightarrow>
      (\<forall>watch\<in>set (child_watches s). watch_pid watch \<noteq> -1 \<longrightarrow>
         length (filter (terminal_call (watch_entry watch)) (child_since s s')) \<le> 1))"
proof (rule poll_run [OF assms])
  fix s :: child_state and ret info
  show "distinct (map watch_entry (child_watches s)) \<longrightarrow>
      (\<forall>watch\<in>set (child_watches s). watch_pid watch \<noteq> -1 \<longrightarrow>
         length (filter (terminal_call (watch_entry watch))
           (child_since s (s\<lparr> child_trace := child_trace s @ [Waitid_nowait ret info] \<rparr>))) \<le> 1)"
    by (simp add: since_stop)
next
  fix s info rest event status free_watch s'
  let ?d = "dispatched info event status free_watch s"
  let ?calls = "map (\<lambda>watch. Handler watch (si_pid info) event status)
           (filter (watch_matches (si_pid info) event) (child_watches s))"
  assume p: "pending (child_kernel s) = info # rest"
    and v: "\<forall>info\<in>set rest. nih_child_poll_switch info \<noteq> None"
    and sw: "nih_child_poll_switch info = Some (event, status, free_watch)"
    and r: "nih_child_poll ?d = Inr s'"
    and q: "distinct (map watch_entry (child_watches ?d)) \<longrightarrow>
      (\<forall>watch\<in>set (child_watches ?d). watch_pid watch \<noteq> -1 \<longrightarrow>
         length (filter (terminal_call (watch_entry watch)) (child_since ?d s')) \<le> 1)"
  have s: "child_since s s' = Waitid_nowait 0 info # ?calls @ Waitid_pid (si_pid info) # child_since ?d s'"
    using poll_since_dispatched(1) [OF p v r] .
  have vd: "\<forall>info\<in>set (pending (child_kernel ?d)). nih_child_poll_switch info \<noteq> None"
    using p v by (simp add: dispatched_pending)
  have reg: "\<forall>watch pid event status.
        Handler watch pid event status \<in> set (child_since ?d s') \<longrightarrow> watch \<in> set (child_watches ?d)"
    using poll_calls_registered [OF vd] r by auto
  show "distinct (map watch_entry (child_watches s)) \<longrightarrow>
      (\<forall>watch\<in>set (child_watches s). watch_pid watch \<noteq> -1 \<longrightarrow>
         length (filter (terminal_call (watch_entry watch)) (child_since s s')) \<le> 1)"
  proof (intro impI ballI)
    fix watch
    assume d: "distinct (map watch_entry (child_watches s))"
      and m: "watch \<in> set (child_watches s)" and nw: "watch_pid watch \<noteq> -1"
    let ?a = "watch_entry watch"
    have dd: "distinct (map watch_entry (child_watches ?d))"
      using d by (simp add: dispatched_watches distinct_map_filter)
    have split: "filter (terminal_call ?a) (child_since s s') =
        filter (terminal_call ?a) ?calls @ filter (terminal_call ?a) (child_since ?d s')"
      unfolding s by simp
    have here: "length (filter (terminal_call ?a) ?calls) \<le> 1"
    proof -
      have "distinct (map watch_entry (filter (watch_matches (si_pid info) event) (child_watches s)))"
        using d by (simp add: distinct_map_filter)
      from at_most_one_at_entry [OF this, of ?a] show ?thesis
        by (simp add: terminal_calls_map)
    qed
    show "length (filter (terminal_call ?a) (child_since s s')) \<le> 1"
    proof (cases "watch_matches (si_pid info) event watch \<and> terminal event")
      case True
      then have "free_watch" using switch_free_watch [OF sw] by simp
      with True nw have "\<not> \<not> (watch_matches (si_pid info) event watch
                               \<and> free_watch \<and> watch_pid watch \<noteq> -1)" by simp
      from entry_absent_filter [where P = "\<lambda>watch. \<not> (watch_matches (si_pid info) event watch
                               \<and> free_watch \<and> watch_pid watch \<noteq> -1)", OF d m this]
      have "?a \<notin> watch_entry ` set (child_watches ?d)" by (simp add: dispatched_watches)
      from no_calls_at_absent_entry [OF reg this]
      have "filter (terminal_call ?a) (child_since ?d s') = []" .
      with here split show ?thesis by simp
    next
      case False
      have none: "filter (terminal_call ?a) ?calls = []"
      proof (cases "terminal event")
        case t: True
        with False have nm: "\<not> watch_matches (si_pid info) event watch" by simp
        have "filter (\<lambda>w. watch_entry w = ?a)
                (filter (watch_matches (si_pid info) event) (child_watches s)) = []"
        proof -
          have "\<not> (watch_entry w = ?a \<and> watch_matches (si_pid info) event w)"
            if "w \<in> set (child_watches s)" for w
          proof
            assume a: "watch_entry w = ?a \<and> watch_matches (si_pid info) event w"
            from d have "inj_on watch_entry (set (child_watches s))" by (simp add: distinct_map)
            with that m a have "w = watch" by (auto dest: inj_onD)
            with a nm show False by simp
          qed
          then show ?thesis by (auto simp: filter_empty_conv)
        qed
        then show ?thesis by (simp add: terminal_calls_map)
      next
        case f: False
        then show ?thesis by (simp add: terminal_calls_map)
      qed
      have "\<not> free_watch \<or> \<not> watch_matches (si_pid info) event watch"
        using False switch_free_watch [OF sw] by auto
      with m have md: "watch \<in> set (child_watches ?d)" by (auto simp: dispatched_watches)
      with q dd nw have "length (filter (terminal_call ?a) (child_since ?d s')) \<le> 1" by blast
      with none split show ?thesis by simp
    qed
  qed
qed

lemma poll_calls_pending:
  assumes "\<forall>info\<in>set (pending (child_kernel s)). nih_child_poll_switch info \<noteq> None"
  shows "\<exists>s'. nih_child_poll s = Inr s' \<and>
     (\<forall>watch pid event status.
        Handler watch pid event status \<in> set (child_since s s') \<longrightarrow>
        (\<exists>info\<in>set (pending (child_kernel s)). \<exists>free_watch.
            si_pid info = pid \<and> nih_child_poll_switch info = Some (event, status, free_watch)
          \<and> watch_matches pid event watch))"
proof (rule poll_run [OF assms])
  fix s :: child_state and ret info
  show "\<forall>watch pid event status.
        Handler watch pid event status
          \<in> set (child_since s (s\<lparr> child_trace := child_trace s @ [Waitid_nowait ret info] \<rparr>)) \<longrightarrow>
        (\<exists>info\<in>set (pending (child_kernel s)). \<exists>free_watch.
            si_pid info = pid \<and> nih_child_poll_switch info = Some (event, status, free_watch)
          \<and> watch_matches pid event watch)"
    by (simp add: since_stop)
next
  fix s info rest event status free_watch s'
  let ?d = "dispatched info event status free_watch s"
  assume p: "pending (child_kernel s) = info # rest"
    and v: "\<forall>info\<in>set rest. nih_child_poll_switch info \<noteq> None"
    and sw: "nih_child_poll_switch info = Some (event, status, free_watch)"
    and r: "nih_child_poll ?d = Inr s'"
    and q: "\<forall>watch pid event' status'.
        Handler watch pid event' status' \<in> set (child_since ?d s') \<longrightarrow>
        (\<exists>info\<in>set (pending (child_kernel ?d)). \<exists>free_watch.
            si_pid info = pid \<and> nih_child_poll_switch info = Some (event', status', free_watch)
          \<and> watch_matches pid event' watch)"
  have pd: "pending (child_kernel ?d) = rest" using p by (simp add: dispatched_pending)
  show "\<forall>watch pid event status.
        Handler watch pid event status \<in> set (child_since s s') \<longrightarrow>
        (\<exists>info\<in>set (pending (child_kernel s)). \<exists>free_watch.
            si_pid info = pid \<and> nih_child_poll_switch info = Some (event, status, free_watch)
          \<and> watch_matches pid event watch)"
    unfolding poll_since_dispatched(1) [OF p v r] using q sw p pd
    by auto
qed


lemma peeked_calls:
  "peeked (map (\<lambda>watch. Handler watch pid event status) list @ es) = peeked es"
  by (induction list) simp_all



lemma known_code_switch: "known_code info \<longleftrightarrow> nih_child_poll_switch info \<noteq> None"
  by (auto simp: known_code_def nih_child_poll_switch_def)

lemma known_codes_switch:
  "(\<forall>info\<in>set list. known_code info) \<Longrightarrow> \<forall>info\<in>set list. nih_child_poll_switch info \<noteq> None"
  by (simp add: known_code_switch)


lemma body_since:
  assumes "pending (child_kernel s) = info # rest" and "si_pid info \<noteq> 0"
    and "nih_child_poll_switch info = Some (event, status, free_watch)"
  shows "\<exists>s'. nih_child_poll_body s = Again s' \<and>
     child_watches s' =
       filter (\<lambda>watch. \<not> (watch_matches (si_pid info) event watch
                               \<and> free_watch \<and> watch_pid watch \<noteq> -1)) (child_watches s) \<and>
     pending (child_kernel s') = rest \<and>
     child_since s s' =
       Waitid_nowait 0 info
         # map (\<lambda>watch. Handler watch (si_pid info) event status)
             (filter (watch_matches (si_pid info) event) (child_watches s))
         @ [Waitid_pid (si_pid info)]"
  using body_dispatch [OF assms] by (simp add: child_since_def)

lemmas ev_defs = nih_child_poll_body_def waitid_nowait_def waitid_pid_def
        nih_child_poll_switch_def CLD_EXITED_def CLD_KILLED_def CLD_DUMPED_def CLD_TRAPPED_def
        CLD_STOPPED_def CLD_CONTINUED_def
        SIGTRAP_def NIH_CHILD_PTRACE_def NIH_CHILD_EXITED_def NIH_CHILD_KILLED_def NIH_CHILD_DUMPED_def
        NIH_CHILD_STOPPED_def NIH_CHILD_CONTINUED_def NIH_CHILD_TRAPPED_def Let_def

section \<open>Which handlers a transition reaches\<close>

lemma peeked_dispatched:
  assumes "si_pid info \<noteq> 0"
  shows "peeked (Waitid_nowait 0 info
       # map (\<lambda>watch. Handler watch (si_pid info) event status) list
       @ Waitid_pid (si_pid info) # es) = info # peeked es"
  using assms by (simp add: peeked_calls)

lemma poll_calls_peeked:
  assumes "\<forall>info\<in>set (pending (child_kernel s)). nih_child_poll_switch info \<noteq> None"
  shows "\<exists>s'. nih_child_poll s = Inr s' \<and>
     (\<forall>watch pid event status.
        Handler watch pid event status \<in> set (child_since s s') \<longrightarrow>
        (\<exists>info\<in>set (peeked (child_since s s')). \<exists>free_watch.
            si_pid info = pid \<and> nih_child_poll_switch info = Some (event, status, free_watch)))"
proof (rule poll_run [OF assms])
  fix s :: child_state and ret info
  show "\<forall>watch pid event status.
        Handler watch pid event status
          \<in> set (child_since s (s\<lparr> child_trace := child_trace s @ [Waitid_nowait ret info] \<rparr>)) \<longrightarrow>
        (\<exists>info\<in>set (peeked (child_since s (s\<lparr> child_trace := child_trace s @ [Waitid_nowait ret info] \<rparr>))).
           \<exists>free_watch.
            si_pid info = pid \<and> nih_child_poll_switch info = Some (event, status, free_watch))"
    by (simp add: since_stop)
next
  fix s info rest event status free_watch s'
  let ?d = "dispatched info event status free_watch s"
  assume p: "pending (child_kernel s) = info # rest"
    and n: "si_pid info \<noteq> 0"
    and v: "\<forall>info\<in>set rest. nih_child_poll_switch info \<noteq> None"
    and sw: "nih_child_poll_switch info = Some (event, status, free_watch)"
    and r: "nih_child_poll ?d = Inr s'"
    and q: "\<forall>watch pid event' status'.
        Handler watch pid event' status' \<in> set (child_since ?d s') \<longrightarrow>
        (\<exists>info\<in>set (peeked (child_since ?d s')). \<exists>free_watch.
            si_pid info = pid \<and> nih_child_poll_switch info = Some (event', status', free_watch))"
  show "\<forall>watch pid event status.
        Handler watch pid event status \<in> set (child_since s s') \<longrightarrow>
        (\<exists>info\<in>set (peeked (child_since s s')). \<exists>free_watch.
            si_pid info = pid \<and> nih_child_poll_switch info = Some (event, status, free_watch))"
    unfolding poll_since_dispatched(1) [OF p v r] peeked_dispatched [OF n]
    using q sw by auto
qed

lemma poll_survivors_called:
  assumes "\<forall>info\<in>set (pending (child_kernel s)). nih_child_poll_switch info \<noteq> None"
  shows "\<exists>s'. nih_child_poll s = Inr s' \<and>
     (\<forall>info\<in>set (peeked (child_since s s')). \<forall>event status free_watch.
        nih_child_poll_switch info = Some (event, status, free_watch) \<longrightarrow>
        (\<forall>watch\<in>set (child_watches s'). watch_matches (si_pid info) event watch \<longrightarrow>
           Handler watch (si_pid info) event status \<in> set (child_since s s')))"
proof (rule poll_run [OF assms])
  fix s :: child_state and ret :: int and info :: siginfo_t
  assume "ret \<noteq> 0 \<or> si_pid info = 0"
  then show "\<forall>info'\<in>set (peeked (child_since s (s\<lparr> child_trace := child_trace s @ [Waitid_nowait ret info] \<rparr>))).
      \<forall>event status free_watch.
        nih_child_poll_switch info' = Some (event, status, free_watch) \<longrightarrow>
        (\<forall>watch\<in>set (child_watches (s\<lparr> child_trace := child_trace s @ [Waitid_nowait ret info] \<rparr>)).
           watch_matches (si_pid info') event watch \<longrightarrow>
           Handler watch (si_pid info') event status
             \<in> set (child_since s (s\<lparr> child_trace := child_trace s @ [Waitid_nowait ret info] \<rparr>)))"
    by (auto simp: since_stop)
next
  fix s info rest event status free_watch s'
  let ?d = "dispatched info event status free_watch s"
  assume p: "pending (child_kernel s) = info # rest"
    and n: "si_pid info \<noteq> 0"
    and v: "\<forall>info\<in>set rest. nih_child_poll_switch info \<noteq> None"
    and sw: "nih_child_poll_switch info = Some (event, status, free_watch)"
    and r: "nih_child_poll ?d = Inr s'"
    and q: "\<forall>info'\<in>set (peeked (child_since ?d s')). \<forall>event' status' free_watch'.
        nih_child_poll_switch info' = Some (event', status', free_watch') \<longrightarrow>
        (\<forall>watch\<in>set (child_watches s'). watch_matches (si_pid info') event' watch \<longrightarrow>
           Handler watch (si_pid info') event' status' \<in> set (child_since ?d s'))"
  from poll_since_dispatched(2) [OF p v r] obtain P where
    "child_watches s' = filter P (child_watches ?d)" by blast
  then have sub: "set (child_watches s') \<subseteq> set (child_watches s)"
    by (auto simp: dispatched_watches)
  show "\<forall>info'\<in>set (peeked (child_since s s')). \<forall>event' status' free_watch'.
        nih_child_poll_switch info' = Some (event', status', free_watch') \<longrightarrow>
        (\<forall>watch\<in>set (child_watches s'). watch_matches (si_pid info') event' watch \<longrightarrow>
           Handler watch (si_pid info') event' status' \<in> set (child_since s s'))"
    unfolding poll_since_dispatched(1) [OF p v r] peeked_dispatched [OF n]
    using q sw sub by auto
qed

text \<open>
  Claim C8. \<^verbatim>\<open>nih_child_poll\<close> returns, and its handler calls are these. Every call it
  makes goes to a registered watch whose pid is the reported pid or -1 and whose mask and
  the event have a bit in common, and carries the pid, event and status decoded from a
  transition the poll found. Every watch that is registered when the poll returns has
  been called, with that pid, event and status, for every transition found that it
  matches. For the transition the poll finds first, the calls between the query and the
  consuming \<^verbatim>\<open>waitid\<close> are those of all matching watches of the list, in list order, each
  with the same pid, event and status: a call is among them exactly when the watch is in
  the list and matches. What follows is the poll from the state that turn leaves behind,
  of which the same holds.
\<close>

theorem handler_called_iff_watch_matches:
  assumes "\<forall>info\<in>set (pending (child_kernel s)). known_code info"
  shows "\<exists>s'. nih_child_poll s = Inr s' \<and>
     (\<forall>watch pid event status.
        Handler watch pid event status \<in> set (child_since s s') \<longrightarrow>
          watch \<in> set (child_watches s)
          \<and> (watch_pid watch = pid \<or> watch_pid watch = -1)
          \<and> watch_events watch AND event \<noteq> 0
          \<and> (\<exists>info\<in>set (peeked (child_since s s')). \<exists>free_watch.
                si_pid info = pid
                \<and> nih_child_poll_switch info = Some (event, status, free_watch))) \<and>
     (\<forall>info\<in>set (peeked (child_since s s')). \<forall>event status free_watch.
        nih_child_poll_switch info = Some (event, status, free_watch) \<longrightarrow>
        (\<forall>watch\<in>set (child_watches s').
           (watch_pid watch = si_pid info \<or> watch_pid watch = -1)
             \<and> watch_events watch AND event \<noteq> 0 \<longrightarrow>
           Handler watch (si_pid info) event status \<in> set (child_since s s'))) \<and>
     (\<forall>info rest event status free_watch.
        pending (child_kernel s) = info # rest \<and> si_pid info \<noteq> 0
          \<and> nih_child_poll_switch info = Some (event, status, free_watch) \<longrightarrow>
        nih_child_poll (dispatched info event status free_watch s) = Inr s' \<and>
        (\<exists>calls.
           child_since s s' =
             Waitid_nowait 0 info # calls
               @ Waitid_pid (si_pid info) # child_since (dispatched info event status free_watch s) s' \<and>
           calls =
             map (\<lambda>watch. Handler watch (si_pid info) event status)
               (filter (\<lambda>watch. (watch_pid watch = si_pid info \<or> watch_pid watch = -1)
                                 \<and> watch_events watch AND event \<noteq> 0)
                  (child_watches s)) \<and>
           (\<forall>watch pid' event' status'.
              Handler watch pid' event' status' \<in> set calls \<longleftrightarrow>
                watch \<in> set (child_watches s)
                \<and> (watch_pid watch = si_pid info \<or> watch_pid watch = -1)
                \<and> watch_events watch AND event \<noteq> 0
                \<and> pid' = si_pid info \<and> event' = event \<and> status' = status)))"
proof -
  note v = known_codes_switch [OF assms]
  from poll_calls_pending [OF v] obtain s' where
    r: "nih_child_poll s = Inr s'"
    and m: "\<forall>watch pid event status.
        Handler watch pid event status \<in> set (child_since s s') \<longrightarrow>
        (\<exists>info\<in>set (pending (child_kernel s)). \<exists>free_watch.
            si_pid info = pid \<and> nih_child_poll_switch info = Some (event, status, free_watch)
          \<and> watch_matches pid event watch)" by blast
  from poll_calls_registered [OF v] r have
    g: "\<forall>watch pid event status.
        Handler watch pid event status \<in> set (child_since s s') \<longrightarrow> watch \<in> set (child_watches s)"
    by auto
  from poll_calls_peeked [OF v] r have
    k: "\<forall>watch pid event status.
        Handler watch pid event status \<in> set (child_since s s') \<longrightarrow>
        (\<exists>info\<in>set (peeked (child_since s s')). \<exists>free_watch.
            si_pid info = pid \<and> nih_child_poll_switch info = Some (event, status, free_watch))"
    by auto
  from poll_survivors_called [OF v] r have
    c: "\<forall>info\<in>set (peeked (child_since s s')). \<forall>event status free_watch.
        nih_child_poll_switch info = Some (event, status, free_watch) \<longrightarrow>
        (\<forall>watch\<in>set (child_watches s'). watch_matches (si_pid info) event watch \<longrightarrow>
           Handler watch (si_pid info) event status \<in> set (child_since s s'))"
    by auto
  have only: "\<forall>watch pid event status.
        Handler watch pid event status \<in> set (child_since s s') \<longrightarrow>
          watch \<in> set (child_watches s)
          \<and> (watch_pid watch = pid \<or> watch_pid watch = -1)
          \<and> watch_events watch AND event \<noteq> 0
          \<and> (\<exists>info\<in>set (peeked (child_since s s')). \<exists>free_watch.
                si_pid info = pid
                \<and> nih_child_poll_switch info = Some (event, status, free_watch))"
  proof (intro allI impI)
    fix watch pid event status
    assume h: "Handler watch pid event status \<in> set (child_since s s')"
    from m h have "watch_matches pid event watch" by blast
    then have "(watch_pid watch = pid \<or> watch_pid watch = -1)
          \<and> watch_events watch AND event \<noteq> 0" by (simp add: watch_matches_def)
    with g k h show "watch \<in> set (child_watches s)
          \<and> (watch_pid watch = pid \<or> watch_pid watch = -1)
          \<and> watch_events watch AND event \<noteq> 0
          \<and> (\<exists>info\<in>set (peeked (child_since s s')). \<exists>free_watch.
                si_pid info = pid
                \<and> nih_child_poll_switch info = Some (event, status, free_watch))" by blast
  qed
  have every: "\<forall>info\<in>set (peeked (child_since s s')). \<forall>event status free_watch.
        nih_child_poll_switch info = Some (event, status, free_watch) \<longrightarrow>
        (\<forall>watch\<in>set (child_watches s').
           (watch_pid watch = si_pid info \<or> watch_pid watch = -1)
             \<and> watch_events watch AND event \<noteq> 0 \<longrightarrow>
           Handler watch (si_pid info) event status \<in> set (child_since s s'))"
    using c by (simp add: watch_matches_def)
  have head: "nih_child_poll (dispatched info event status free_watch s) = Inr s' \<and>
        (\<exists>calls.
           child_since s s' =
             Waitid_nowait 0 info # calls
               @ Waitid_pid (si_pid info) # child_since (dispatched info event status free_watch s) s' \<and>
           calls =
             map (\<lambda>watch. Handler watch (si_pid info) event status)
               (filter (\<lambda>watch. (watch_pid watch = si_pid info \<or> watch_pid watch = -1)
                                 \<and> watch_events watch AND event \<noteq> 0)
                  (child_watches s)) \<and>
           (\<forall>watch pid' event' status'.
              Handler watch pid' event' status' \<in> set calls \<longleftrightarrow>
                watch \<in> set (child_watches s)
                \<and> (watch_pid watch = si_pid info \<or> watch_pid watch = -1)
                \<and> watch_events watch AND event \<noteq> 0
                \<and> pid' = si_pid info \<and> event' = event \<and> status' = status))"
    if p: "pending (child_kernel s) = info # rest" and n: "si_pid info \<noteq> 0"
      and sw: "nih_child_poll_switch info = Some (event, status, free_watch)"
    for info rest event status free_watch
  proof -
    let ?d = "dispatched info event status free_watch s"
    let ?calls = "map (\<lambda>watch. Handler watch (si_pid info) event status)
               (filter (\<lambda>watch. (watch_pid watch = si_pid info \<or> watch_pid watch = -1)
                                 \<and> watch_events watch AND event \<noteq> 0)
                  (child_watches s))"
    have rd: "nih_child_poll ?d = Inr s'"
      using poll_Again [OF body_dispatched [OF p n sw]] r by simp
    have vr: "\<forall>info\<in>set rest. nih_child_poll_switch info \<noteq> None" using v p by simp
    have f: "filter (watch_matches (si_pid info) event) (child_watches s) =
        filter (\<lambda>watch. (watch_pid watch = si_pid info \<or> watch_pid watch = -1)
                                 \<and> watch_events watch AND event \<noteq> 0) (child_watches s)"
      by (rule filter_cong [OF refl]) (simp add: watch_matches_def)
    have t: "child_since s s' =
        Waitid_nowait 0 info # ?calls @ Waitid_pid (si_pid info) # child_since ?d s'"
      using poll_since_dispatched(1) [OF p vr rd] unfolding f .
    have i: "\<forall>watch pid' event' status'.
              Handler watch pid' event' status' \<in> set ?calls \<longleftrightarrow>
                watch \<in> set (child_watches s)
                \<and> (watch_pid watch = si_pid info \<or> watch_pid watch = -1)
                \<and> watch_events watch AND event \<noteq> 0
                \<and> pid' = si_pid info \<and> event' = event \<and> status' = status"
      by auto
    from rd t i show ?thesis by blast
  qed
  from r only every head show ?thesis by blast
qed

theorem handler_called_iff_watch_matches_witness:
  "known_code \<lparr> si_pid = 10, si_code = CLD_STOPPED, si_status = 19 \<rparr> \<and>
   known_code \<lparr> si_pid = 10, si_code = CLD_EXITED, si_status = 7 \<rparr> \<and>
   (\<exists>s'. nih_child_poll
       \<lparr> child_watches =
           [\<lparr> watch_entry = 1, watch_pid = 10, watch_events = 0x7f, watch_handler = 100, watch_data = 0 \<rparr>,
            \<lparr> watch_entry = 2, watch_pid = -1, watch_events = NIH_CHILD_EXITED, watch_handler = 101, watch_data = 0 \<rparr>,
            \<lparr> watch_entry = 3, watch_pid = 10, watch_events = NIH_CHILD_STOPPED, watch_handler = 102, watch_data = 0 \<rparr>],
         child_kernel = \<lparr> pending = [\<lparr> si_pid = 10, si_code = CLD_STOPPED, si_status = 19 \<rparr>,
                                     \<lparr> si_pid = 10, si_code = CLD_EXITED, si_status = 7 \<rparr>],
                          waitid_idle = -1 \<rparr>,
         child_trace = [] \<rparr> = Inr s' \<and>
      take 4 (child_trace s') =
        [Waitid_nowait 0 \<lparr> si_pid = 10, si_code = CLD_STOPPED, si_status = 19 \<rparr>,
         Handler \<lparr> watch_entry = 1, watch_pid = 10, watch_events = 0x7f, watch_handler = 100,
                   watch_data = 0 \<rparr> 10 NIH_CHILD_STOPPED 19,
         Handler \<lparr> watch_entry = 3, watch_pid = 10, watch_events = NIH_CHILD_STOPPED,
                   watch_handler = 102, watch_data = 0 \<rparr> 10 NIH_CHILD_STOPPED 19,
         Waitid_pid 10])"
proof -
  let ?wa = "\<lparr> watch_entry = 1, watch_pid = 10, watch_events = 0x7f, watch_handler = 100, watch_data = 0 \<rparr>"
  let ?wb = "\<lparr> watch_entry = 2, watch_pid = -1, watch_events = NIH_CHILD_EXITED, watch_handler = 101, watch_data = 0 \<rparr>"
  let ?wc = "\<lparr> watch_entry = 3, watch_pid = 10, watch_events = NIH_CHILD_STOPPED, watch_handler = 102, watch_data = 0 \<rparr>"
  let ?ia = "\<lparr> si_pid = 10, si_code = CLD_STOPPED, si_status = 19 \<rparr>"
  let ?ib = "\<lparr> si_pid = 10, si_code = CLD_EXITED, si_status = 7 \<rparr>"
  let ?before = "\<lparr> child_watches = [?wa, ?wb, ?wc],
                   child_kernel = \<lparr> pending = [?ia, ?ib], waitid_idle = -1 \<rparr>,
                   child_trace = [] \<rparr>"
  have k: "known_code ?ia" "known_code ?ib"
    by (simp_all add: known_code_def)
  then have h1: "\<forall>info\<in>set (pending (child_kernel ?before)). known_code info" by simp
  have p: "pending (child_kernel ?before) = ?ia # [?ib] \<and> si_pid ?ia \<noteq> 0
      \<and> nih_child_poll_switch ?ia = Some (NIH_CHILD_STOPPED, 19, False)"
    by (simp add: ev_defs)
  from handler_called_iff_watch_matches [OF h1] obtain s' where
    r: "nih_child_poll ?before = Inr s'"
    and h: "\<forall>info rest event status free_watch.
        pending (child_kernel ?before) = info # rest \<and> si_pid info \<noteq> 0
          \<and> nih_child_poll_switch info = Some (event, status, free_watch) \<longrightarrow>
        nih_child_poll (dispatched info event status free_watch ?before) = Inr s' \<and>
        (\<exists>calls.
           child_since ?before s' =
             Waitid_nowait 0 info # calls
               @ Waitid_pid (si_pid info) # child_since (dispatched info event status free_watch ?before) s' \<and>
           calls =
             map (\<lambda>watch. Handler watch (si_pid info) event status)
               (filter (\<lambda>watch. (watch_pid watch = si_pid info \<or> watch_pid watch = -1)
                                 \<and> watch_events watch AND event \<noteq> 0)
                  (child_watches ?before)) \<and>
           (\<forall>watch pid' event' status'.
              Handler watch pid' event' status' \<in> set calls \<longleftrightarrow>
                watch \<in> set (child_watches ?before)
                \<and> (watch_pid watch = si_pid info \<or> watch_pid watch = -1)
                \<and> watch_events watch AND event \<noteq> 0
                \<and> pid' = si_pid info \<and> event' = event \<and> status' = status))"
    by (elim exE conjE) (rule that; assumption)
  from h have "pending (child_kernel ?before) = ?ia # [?ib] \<and> si_pid ?ia \<noteq> 0
          \<and> nih_child_poll_switch ?ia = Some (NIH_CHILD_STOPPED, 19, False) \<longrightarrow>
        nih_child_poll (dispatched ?ia NIH_CHILD_STOPPED 19 False ?before) = Inr s' \<and>
        (\<exists>calls.
           child_since ?before s' =
             Waitid_nowait 0 ?ia # calls
               @ Waitid_pid (si_pid ?ia)
                 # child_since (dispatched ?ia NIH_CHILD_STOPPED 19 False ?before) s' \<and>
           calls =
             map (\<lambda>watch. Handler watch (si_pid ?ia) NIH_CHILD_STOPPED 19)
               (filter (\<lambda>watch. (watch_pid watch = si_pid ?ia \<or> watch_pid watch = -1)
                                 \<and> watch_events watch AND NIH_CHILD_STOPPED \<noteq> 0)
                  (child_watches ?before)) \<and>
           (\<forall>watch pid' event' status'.
              Handler watch pid' event' status' \<in> set calls \<longleftrightarrow>
                watch \<in> set (child_watches ?before)
                \<and> (watch_pid watch = si_pid ?ia \<or> watch_pid watch = -1)
                \<and> watch_events watch AND NIH_CHILD_STOPPED \<noteq> 0
                \<and> pid' = si_pid ?ia \<and> event' = NIH_CHILD_STOPPED \<and> status' = 19))"
    by (elim allE)
  with p obtain es where
    t: "child_since ?before s' =
       Waitid_nowait 0 ?ia
         # map (\<lambda>watch. Handler watch (si_pid ?ia) NIH_CHILD_STOPPED 19)
               (filter (\<lambda>watch. (watch_pid watch = si_pid ?ia \<or> watch_pid watch = -1)
                                 \<and> watch_events watch AND NIH_CHILD_STOPPED \<noteq> 0)
                  (child_watches ?before))
         @ Waitid_pid (si_pid ?ia) # es"
    by blast
  have e: "child_trace s' = child_since ?before s'" by (simp add: child_since_def)
  have "child_trace s' =
      [Waitid_nowait 0 ?ia, Handler ?wa 10 NIH_CHILD_STOPPED 19,
       Handler ?wc 10 NIH_CHILD_STOPPED 19, Waitid_pid 10] @ es"
    unfolding e t by (simp add: NIH_CHILD_STOPPED_def NIH_CHILD_EXITED_def)
  then have "take 4 (child_trace s') =
      [Waitid_nowait 0 ?ia, Handler ?wa 10 NIH_CHILD_STOPPED 19,
       Handler ?wc 10 NIH_CHILD_STOPPED 19, Waitid_pid 10]"
    by simp
  with k r show ?thesis by blast
qed

section \<open>Traps\<close>

text \<open>
  Claim C4, as the code has it. For a \<^verbatim>\<open>CLD_TRAPPED\<close> transition the test is on the low
  seven bits of the status: when \<^verbatim>\<open>si_status & 0x7f\<close> is \<^verbatim>\<open>SIGTRAP\<close> and a bit above the
  low seven is set, the event is \<^verbatim>\<open>NIH_CHILD_PTRACE\<close> and the status handed on is
  \<^verbatim>\<open>si_status >> 8\<close>; otherwise the event is \<^verbatim>\<open>NIH_CHILD_TRAPPED\<close> with the status as it
  came. Either way no watch is freed, and the matching handlers receive that event and
  status.
\<close>

theorem trapped_or_ptrace:
  assumes "pending (child_kernel s) = info # rest" and "si_pid info \<noteq> 0"
    and "si_code info = CLD_TRAPPED"
  shows "nih_child_poll_switch info =
      (if si_status info AND 0x7f = SIGTRAP \<and> si_status info AND NOT 0x7f \<noteq> 0
       then Some (NIH_CHILD_PTRACE, signed_drop_bit 8 (si_status info), False)
       else Some (NIH_CHILD_TRAPPED, si_status info, False)) \<and>
     (\<exists>s'. nih_child_poll_body s = Again s' \<and>
        child_watches s' = child_watches s \<and>
        child_since s s' =
          (if si_status info AND 0x7f = SIGTRAP \<and> si_status info AND NOT 0x7f \<noteq> 0
           then Waitid_nowait 0 info
             # map (\<lambda>watch. Handler watch (si_pid info) NIH_CHILD_PTRACE
                               (signed_drop_bit 8 (si_status info)))
                 (filter (watch_matches (si_pid info) NIH_CHILD_PTRACE) (child_watches s))
             @ [Waitid_pid (si_pid info)]
           else Waitid_nowait 0 info
             # map (\<lambda>watch. Handler watch (si_pid info) NIH_CHILD_TRAPPED (si_status info))
                 (filter (watch_matches (si_pid info) NIH_CHILD_TRAPPED) (child_watches s))
             @ [Waitid_pid (si_pid info)]))"
proof -
  have sw: "nih_child_poll_switch info =
      (if si_status info AND 0x7f = SIGTRAP \<and> si_status info AND NOT 0x7f \<noteq> 0
       then Some (NIH_CHILD_PTRACE, signed_drop_bit 8 (si_status info), False)
       else Some (NIH_CHILD_TRAPPED, si_status info, False))"
    using assms(3)
    by (simp add: nih_child_poll_switch_def CLD_EXITED_def CLD_KILLED_def CLD_DUMPED_def
          CLD_TRAPPED_def)
  show ?thesis
  proof (cases "si_status info AND 0x7f = SIGTRAP \<and> si_status info AND NOT 0x7f \<noteq> 0")
    case True
    with sw have "nih_child_poll_switch info =
        Some (NIH_CHILD_PTRACE, signed_drop_bit 8 (si_status info), False)" by simp
    from body_since [OF assms(1,2) this] sw True show ?thesis by auto
  next
    case False
    have t: "nih_child_poll_switch info = Some (NIH_CHILD_TRAPPED, si_status info, False)"
      unfolding sw by (simp only: False if_False)
    from body_since [OF assms(1,2) t] obtain s' where
      "nih_child_poll_body s = Again s'" "child_watches s' = child_watches s"
      "child_since s s' = Waitid_nowait 0 info
             # map (\<lambda>watch. Handler watch (si_pid info) NIH_CHILD_TRAPPED (si_status info))
                 (filter (watch_matches (si_pid info) NIH_CHILD_TRAPPED) (child_watches s))
             @ [Waitid_pid (si_pid info)]" by auto
    then have "\<exists>s'. nih_child_poll_body s = Again s' \<and>
        child_watches s' = child_watches s \<and>
        child_since s s' =
          (if si_status info AND 0x7f = SIGTRAP \<and> si_status info AND NOT 0x7f \<noteq> 0
           then Waitid_nowait 0 info
             # map (\<lambda>watch. Handler watch (si_pid info) NIH_CHILD_PTRACE
                               (signed_drop_bit 8 (si_status info)))
                 (filter (watch_matches (si_pid info) NIH_CHILD_PTRACE) (child_watches s))
             @ [Waitid_pid (si_pid info)]
           else Waitid_nowait 0 info
             # map (\<lambda>watch. Handler watch (si_pid info) NIH_CHILD_TRAPPED (si_status info))
                 (filter (watch_matches (si_pid info) NIH_CHILD_TRAPPED) (child_watches s))
             @ [Waitid_pid (si_pid info)])"
      by (simp only: False if_False) blast
    with sw show ?thesis by blast
  qed
qed

theorem trapped_or_ptrace_witness:
  "pending (child_kernel
      \<lparr> child_watches = [],
        child_kernel = \<lparr> pending = [\<lparr> si_pid = 10, si_code = CLD_TRAPPED, si_status = 0x305 \<rparr>],
                         waitid_idle = 0 \<rparr>,
        child_trace = [] \<rparr>)
     = \<lparr> si_pid = 10, si_code = CLD_TRAPPED, si_status = 0x305 \<rparr> # [] \<and>
   si_pid \<lparr> si_pid = 10, si_code = CLD_TRAPPED, si_status = 0x305 \<rparr> \<noteq> 0 \<and>
   si_code \<lparr> si_pid = 10, si_code = CLD_TRAPPED, si_status = 0x305 \<rparr> = CLD_TRAPPED \<and>
   nih_child_poll_switch \<lparr> si_pid = 10, si_code = CLD_TRAPPED, si_status = 0x305 \<rparr>
     = Some (NIH_CHILD_PTRACE, 3, False)"
proof -
  let ?i = "\<lparr> si_pid = 10, si_code = CLD_TRAPPED, si_status = 0x305 \<rparr>"
  let ?before = "\<lparr> child_watches = [],
        child_kernel = \<lparr> pending = [?i], waitid_idle = 0 \<rparr>, child_trace = [] \<rparr>"
  have h1: "pending (child_kernel ?before) = ?i # []" by simp
  have h2: "si_pid ?i \<noteq> 0" by simp
  have h3: "si_code ?i = CLD_TRAPPED" by simp
  from trapped_or_ptrace [OF h1 h2 h3]
  have "nih_child_poll_switch ?i =
      (if si_status ?i AND 0x7f = SIGTRAP \<and> si_status ?i AND NOT 0x7f \<noteq> 0
       then Some (NIH_CHILD_PTRACE, signed_drop_bit 8 (si_status ?i), False)
       else Some (NIH_CHILD_TRAPPED, si_status ?i, False))" by blast
  then have "nih_child_poll_switch ?i = Some (NIH_CHILD_PTRACE, 3, False)"
    by (simp add: SIGTRAP_def)
  with h1 h2 h3 show ?thesis by blast
qed

text \<open>
  The claim as the spec states it, with the test on the low byte, fails at the status
  0x85: its low byte is not \<^verbatim>\<open>SIGTRAP\<close>, so the claim makes it a plain trap with status
  0x85, but its low seven bits are \<^verbatim>\<open>SIGTRAP\<close> and bit 7 is set, so the handler is
  called with \<^verbatim>\<open>NIH_CHILD_PTRACE\<close> and status 0.
\<close>

theorem trapped_low_byte_counterexample:
  "(0x85 :: 32 word) AND 0xff \<noteq> SIGTRAP \<and>
   nih_child_poll_switch \<lparr> si_pid = 10, si_code = CLD_TRAPPED, si_status = 0x85 \<rparr>
     = Some (NIH_CHILD_PTRACE, 0, False) \<and>
   nih_child_poll
     \<lparr> child_watches = [\<lparr> watch_entry = 1, watch_pid = 10, watch_events = 0x7f,
                          watch_handler = 100, watch_data = 0 \<rparr>],
       child_kernel = \<lparr> pending = [\<lparr> si_pid = 10, si_code = CLD_TRAPPED, si_status = 0x85 \<rparr>],
                        waitid_idle = 0 \<rparr>,
       child_trace = [] \<rparr> =
   Inr \<lparr> child_watches = [\<lparr> watch_entry = 1, watch_pid = 10, watch_events = 0x7f,
                          watch_handler = 100, watch_data = 0 \<rparr>],
         child_kernel = \<lparr> pending = [], waitid_idle = 0 \<rparr>,
         child_trace =
           [Waitid_nowait 0 \<lparr> si_pid = 10, si_code = CLD_TRAPPED, si_status = 0x85 \<rparr>,
            Handler \<lparr> watch_entry = 1, watch_pid = 10, watch_events = 0x7f,
                      watch_handler = 100, watch_data = 0 \<rparr> 10 NIH_CHILD_PTRACE 0,
            Waitid_pid 10,
            Waitid_nowait 0 \<lparr> si_pid = 0, si_code = 0, si_status = 0 \<rparr>] \<rparr>"
  by (simp add: nih_child_poll_body_def waitid_nowait_def waitid_pid_def
        nih_child_poll_switch_def CLD_EXITED_def CLD_KILLED_def CLD_DUMPED_def CLD_TRAPPED_def
        SIGTRAP_def NIH_CHILD_PTRACE_def Let_def)

section \<open>Query, handlers, reap\<close>



section \<open>Watches that are released and watches that stay\<close>

text \<open>
  Claim C3. In a poll over watches at distinct addresses: a watch for one pid whose handler
  was called for a terminal event is not in the list afterwards; such a watch receives at
  most one call for a terminal event; a watch that received no call for a terminal event
  (only calls for stopped, continued, trapped or ptrace events, or none) is still in the
  list; and a watch for pid -1 is always still in the list.
\<close>

theorem watch_released_after_terminal_call:
  assumes "\<forall>info\<in>set (pending (child_kernel s)). known_code info"
    and "distinct (map watch_entry (child_watches s))"
  shows "\<exists>s'. nih_child_poll s = Inr s' \<and>
     (\<forall>watch pid event status.
         Handler watch pid event status \<in> set (child_since s s') \<and> terminal event
           \<and> watch_pid watch \<noteq> -1
         \<longrightarrow> watch_entry watch \<notin> watch_entry ` set (child_watches s')) \<and>
     (\<forall>watch\<in>set (child_watches s). watch_pid watch \<noteq> -1 \<longrightarrow>
         length (filter (terminal_call (watch_entry watch)) (child_since s s')) \<le> 1) \<and>
     (\<forall>watch\<in>set (child_watches s).
        (\<forall>pid event status.
           Handler watch pid event status \<in> set (child_since s s') \<longrightarrow> \<not> terminal event)
        \<longrightarrow> watch \<in> set (child_watches s')) \<and>
     (\<forall>watch\<in>set (child_watches s). watch_pid watch = -1 \<longrightarrow> watch \<in> set (child_watches s')) \<and>
     \<not> terminal NIH_CHILD_STOPPED \<and> \<not> terminal NIH_CHILD_CONTINUED \<and>
     \<not> terminal NIH_CHILD_TRAPPED \<and> \<not> terminal NIH_CHILD_PTRACE"
proof -
  note v = known_codes_switch [OF assms(1)]
  from poll_terminal_released [OF v] assms(2) obtain s' where
    r: "nih_child_poll s = Inr s'"
    and a: "\<forall>watch pid event status.
         Handler watch pid event status \<in> set (child_since s s') \<and> terminal event
           \<and> watch_pid watch \<noteq> -1
         \<longrightarrow> watch_entry watch \<notin> watch_entry ` set (child_watches s')" by blast
  from poll_terminal_once [OF v] assms(2) r have
    b: "\<forall>watch\<in>set (child_watches s). watch_pid watch \<noteq> -1 \<longrightarrow>
         length (filter (terminal_call (watch_entry watch)) (child_since s s')) \<le> 1" by auto
  from poll_kept [OF v] r have
    k: "\<forall>watch\<in>set (child_watches s).
        (\<forall>pid event status.
           Handler watch pid event status \<in> set (child_since s s') \<longrightarrow>
           \<not> (terminal event \<and> watch_pid watch = pid \<and> watch_pid watch \<noteq> -1
               \<and> watch_events watch AND event \<noteq> 0))
        \<longrightarrow> watch \<in> set (child_watches s')" by auto
  have c: "\<forall>watch\<in>set (child_watches s).
        (\<forall>pid event status.
           Handler watch pid event status \<in> set (child_since s s') \<longrightarrow> \<not> terminal event)
        \<longrightarrow> watch \<in> set (child_watches s')"
    using k by blast
  have d: "\<forall>watch\<in>set (child_watches s). watch_pid watch = -1 \<longrightarrow> watch \<in> set (child_watches s')"
    using k by blast
  have e: "\<not> terminal NIH_CHILD_STOPPED \<and> \<not> terminal NIH_CHILD_CONTINUED \<and>
     \<not> terminal NIH_CHILD_TRAPPED \<and> \<not> terminal NIH_CHILD_PTRACE"
    by (simp add: terminal_def NIH_CHILD_EXITED_def NIH_CHILD_KILLED_def NIH_CHILD_DUMPED_def
          NIH_CHILD_STOPPED_def NIH_CHILD_CONTINUED_def NIH_CHILD_TRAPPED_def NIH_CHILD_PTRACE_def)
  from r a b c d e show ?thesis by blast
qed

theorem watch_released_after_terminal_call_witness:
  "known_code \<lparr> si_pid = 10, si_code = CLD_STOPPED, si_status = 19 \<rparr> \<and>
   known_code \<lparr> si_pid = 10, si_code = CLD_EXITED, si_status = 7 \<rparr> \<and>
   distinct (map watch_entry
     [\<lparr> watch_entry = 1, watch_pid = 10, watch_events = 0x7f, watch_handler = 100, watch_data = 0 \<rparr>,
      \<lparr> watch_entry = 2, watch_pid = -1, watch_events = NIH_CHILD_EXITED, watch_handler = 101, watch_data = 0 \<rparr>,
      \<lparr> watch_entry = 3, watch_pid = 10, watch_events = NIH_CHILD_STOPPED, watch_handler = 102, watch_data = 0 \<rparr>]) \<and>
   (\<exists>s'. nih_child_poll
       \<lparr> child_watches =
           [\<lparr> watch_entry = 1, watch_pid = 10, watch_events = 0x7f, watch_handler = 100, watch_data = 0 \<rparr>,
            \<lparr> watch_entry = 2, watch_pid = -1, watch_events = NIH_CHILD_EXITED, watch_handler = 101, watch_data = 0 \<rparr>,
            \<lparr> watch_entry = 3, watch_pid = 10, watch_events = NIH_CHILD_STOPPED, watch_handler = 102, watch_data = 0 \<rparr>],
         child_kernel = \<lparr> pending = [\<lparr> si_pid = 10, si_code = CLD_STOPPED, si_status = 19 \<rparr>,
                                     \<lparr> si_pid = 10, si_code = CLD_EXITED, si_status = 7 \<rparr>],
                          waitid_idle = -1 \<rparr>,
         child_trace = [] \<rparr> = Inr s' \<and>
      1 \<notin> watch_entry ` set (child_watches s') \<and>
      \<lparr> watch_entry = 2, watch_pid = -1, watch_events = NIH_CHILD_EXITED, watch_handler = 101,
        watch_data = 0 \<rparr> \<in> set (child_watches s'))"
proof -
  let ?wa = "\<lparr> watch_entry = 1, watch_pid = 10, watch_events = 0x7f, watch_handler = 100, watch_data = 0 \<rparr>"
  let ?wb = "\<lparr> watch_entry = 2, watch_pid = -1, watch_events = NIH_CHILD_EXITED, watch_handler = 101, watch_data = 0 \<rparr>"
  let ?wc = "\<lparr> watch_entry = 3, watch_pid = 10, watch_events = NIH_CHILD_STOPPED, watch_handler = 102, watch_data = 0 \<rparr>"
  let ?ia = "\<lparr> si_pid = 10, si_code = CLD_STOPPED, si_status = 19 \<rparr>"
  let ?ib = "\<lparr> si_pid = 10, si_code = CLD_EXITED, si_status = 7 \<rparr>"
  let ?before = "\<lparr> child_watches = [?wa, ?wb, ?wc],
                   child_kernel = \<lparr> pending = [?ia, ?ib], waitid_idle = -1 \<rparr>,
                   child_trace = [] \<rparr>"
  let ?after = "\<lparr> child_watches = [?wb, ?wc],
                  child_kernel = \<lparr> pending = [], waitid_idle = -1 \<rparr>,
                  child_trace =
                    [Waitid_nowait 0 ?ia,
                     Handler ?wa 10 NIH_CHILD_STOPPED 19, Handler ?wc 10 NIH_CHILD_STOPPED 19,
                     Waitid_pid 10,
                     Waitid_nowait 0 ?ib,
                     Handler ?wa 10 NIH_CHILD_EXITED 7, Handler ?wb 10 NIH_CHILD_EXITED 7,
                     Waitid_pid 10,
                     Waitid_nowait (-1) \<lparr> si_pid = 0, si_code = 0, si_status = 0 \<rparr>] \<rparr>"
  have k: "known_code ?ia" "known_code ?ib"
    by (simp_all add: known_code_def)
  then have h1: "\<forall>info\<in>set (pending (child_kernel ?before)). known_code info" by simp
  have h2: "distinct (map watch_entry (child_watches ?before))" by simp
  have run: "nih_child_poll ?before = Inr ?after"
    by (simp add: ev_defs)
  from watch_released_after_terminal_call [OF h1 h2] run
  have a: "\<forall>watch pid event status.
         Handler watch pid event status \<in> set (child_since ?before ?after) \<and> terminal event
           \<and> watch_pid watch \<noteq> -1
         \<longrightarrow> watch_entry watch \<notin> watch_entry ` set (child_watches ?after)"
    and d: "\<forall>watch\<in>set (child_watches ?before). watch_pid watch = -1
         \<longrightarrow> watch \<in> set (child_watches ?after)"
    by auto
  have c: "Handler ?wa 10 NIH_CHILD_EXITED 7 \<in> set (child_since ?before ?after)"
    by (simp add: child_since_def)
  have t: "terminal NIH_CHILD_EXITED" by (simp add: terminal_def)
  have n: "watch_pid ?wa \<noteq> -1" by simp
  from a have "Handler ?wa 10 NIH_CHILD_EXITED 7 \<in> set (child_since ?before ?after)
      \<and> terminal NIH_CHILD_EXITED \<and> watch_pid ?wa \<noteq> -1
      \<longrightarrow> watch_entry ?wa \<notin> watch_entry ` set (child_watches ?after)"
    by (elim allE)
  with c t n have 1: "watch_entry ?wa \<notin> watch_entry ` set (child_watches ?after)"
    by (elim impE) (intro conjI)
  have 2: "?wb \<in> set (child_watches ?after)" using d by simp
  from k h2 run 1 2 show ?thesis by simp
qed

text \<open>
  Claim C10. A watch leaves the list during a poll only after its handler was called for
  a terminal event of its own pid that its mask holds. So a watch for one pid whose mask
  holds none of the terminal events pending for that pid is still in the list after the
  poll, whatever else was dispatched.
\<close>

theorem watch_freed_only_after_matching_terminal_call:
  assumes "\<forall>info\<in>set (pending (child_kernel s)). known_code info"
  shows "\<exists>s'. nih_child_poll s = Inr s' \<and>
     (\<forall>watch\<in>set (child_watches s). watch \<notin> set (child_watches s') \<longrightarrow>
        (\<exists>pid event status.
           Handler watch pid event status \<in> set (child_since s s') \<and> terminal event
           \<and> watch_pid watch = pid \<and> watch_pid watch \<noteq> -1
           \<and> watch_events watch AND event \<noteq> 0)) \<and>
     (\<forall>watch\<in>set (child_watches s).
        (\<forall>info\<in>set (pending (child_kernel s)). \<forall>event status.
           nih_child_poll_switch info = Some (event, status, True)
             \<and> si_pid info = watch_pid watch
           \<longrightarrow> watch_events watch AND event = 0)
        \<longrightarrow> watch \<in> set (child_watches s'))"
proof -
  note v = known_codes_switch [OF assms]
  from poll_kept [OF v] obtain s' where
    r: "nih_child_poll s = Inr s'"
    and k: "\<forall>watch\<in>set (child_watches s).
        (\<forall>pid event status.
           Handler watch pid event status \<in> set (child_since s s') \<longrightarrow>
           \<not> (terminal event \<and> watch_pid watch = pid \<and> watch_pid watch \<noteq> -1
               \<and> watch_events watch AND event \<noteq> 0))
        \<longrightarrow> watch \<in> set (child_watches s')" by blast
  from poll_calls_pending [OF v] r have
    c: "\<forall>watch pid event status.
        Handler watch pid event status \<in> set (child_since s s') \<longrightarrow>
        (\<exists>info\<in>set (pending (child_kernel s)). \<exists>free_watch.
            si_pid info = pid \<and> nih_child_poll_switch info = Some (event, status, free_watch)
          \<and> watch_matches pid event watch)" by auto
  have only: "\<forall>watch\<in>set (child_watches s). watch \<notin> set (child_watches s') \<longrightarrow>
        (\<exists>pid event status.
           Handler watch pid event status \<in> set (child_since s s') \<and> terminal event
           \<and> watch_pid watch = pid \<and> watch_pid watch \<noteq> -1
           \<and> watch_events watch AND event \<noteq> 0)"
    using k by blast
  have survives: "watch \<in> set (child_watches s')"
    if m: "watch \<in> set (child_watches s)"
      and h: "\<forall>info\<in>set (pending (child_kernel s)). \<forall>event status.
           nih_child_poll_switch info = Some (event, status, True)
             \<and> si_pid info = watch_pid watch
           \<longrightarrow> watch_events watch AND event = 0"
    for watch
  proof -
    have "\<not> (terminal event \<and> watch_pid watch = pid \<and> watch_pid watch \<noteq> -1
               \<and> watch_events watch AND event \<noteq> 0)"
      if call: "Handler watch pid event status \<in> set (child_since s s')" for pid event status
    proof
      assume a: "terminal event \<and> watch_pid watch = pid \<and> watch_pid watch \<noteq> -1
               \<and> watch_events watch AND event \<noteq> 0"
      from c call obtain info free_watch where
        i: "info \<in> set (pending (child_kernel s))" "si_pid info = pid"
           "nih_child_poll_switch info = Some (event, status, free_watch)" by blast
      from switch_free_watch [OF i(3)] a have "free_watch" by simp
      with i(3) have t: "nih_child_poll_switch info = Some (event, status, True)" by simp
      have "si_pid info = watch_pid watch" using i(2) a by simp
      with h i(1) t have "watch_events watch AND event = 0" by blast
      with a show False by simp
    qed
    with k m show ?thesis by blast
  qed
  from r only survives show ?thesis by blast
qed

theorem watch_freed_only_after_matching_terminal_call_witness:
  "known_code \<lparr> si_pid = 10, si_code = CLD_STOPPED, si_status = 19 \<rparr> \<and>
   known_code \<lparr> si_pid = 10, si_code = CLD_EXITED, si_status = 7 \<rparr> \<and>
   (\<exists>s'. nih_child_poll
       \<lparr> child_watches =
           [\<lparr> watch_entry = 1, watch_pid = 10, watch_events = 0x7f, watch_handler = 100, watch_data = 0 \<rparr>,
            \<lparr> watch_entry = 2, watch_pid = -1, watch_events = NIH_CHILD_EXITED, watch_handler = 101, watch_data = 0 \<rparr>,
            \<lparr> watch_entry = 3, watch_pid = 10, watch_events = NIH_CHILD_STOPPED, watch_handler = 102, watch_data = 0 \<rparr>],
         child_kernel = \<lparr> pending = [\<lparr> si_pid = 10, si_code = CLD_STOPPED, si_status = 19 \<rparr>,
                                     \<lparr> si_pid = 10, si_code = CLD_EXITED, si_status = 7 \<rparr>],
                          waitid_idle = -1 \<rparr>,
         child_trace = [] \<rparr> = Inr s' \<and>
      \<lparr> watch_entry = 3, watch_pid = 10, watch_events = NIH_CHILD_STOPPED, watch_handler = 102,
        watch_data = 0 \<rparr> \<in> set (child_watches s'))"
proof -
  let ?wa = "\<lparr> watch_entry = 1, watch_pid = 10, watch_events = 0x7f, watch_handler = 100, watch_data = 0 \<rparr>"
  let ?wb = "\<lparr> watch_entry = 2, watch_pid = -1, watch_events = NIH_CHILD_EXITED, watch_handler = 101, watch_data = 0 \<rparr>"
  let ?wc = "\<lparr> watch_entry = 3, watch_pid = 10, watch_events = NIH_CHILD_STOPPED, watch_handler = 102, watch_data = 0 \<rparr>"
  let ?ia = "\<lparr> si_pid = 10, si_code = CLD_STOPPED, si_status = 19 \<rparr>"
  let ?ib = "\<lparr> si_pid = 10, si_code = CLD_EXITED, si_status = 7 \<rparr>"
  let ?before = "\<lparr> child_watches = [?wa, ?wb, ?wc],
                   child_kernel = \<lparr> pending = [?ia, ?ib], waitid_idle = -1 \<rparr>,
                   child_trace = [] \<rparr>"
  have k: "known_code ?ia" "known_code ?ib"
    by (simp_all add: known_code_def)
  then have h1: "\<forall>info\<in>set (pending (child_kernel ?before)). known_code info" by simp
  from watch_freed_only_after_matching_terminal_call [OF h1] obtain s' where
    r: "nih_child_poll ?before = Inr s'"
    and s: "\<forall>watch\<in>set (child_watches ?before).
        (\<forall>info\<in>set (pending (child_kernel ?before)). \<forall>event status.
           nih_child_poll_switch info = Some (event, status, True)
             \<and> si_pid info = watch_pid watch
           \<longrightarrow> watch_events watch AND event = 0)
        \<longrightarrow> watch \<in> set (child_watches s')" by blast
  have m: "?wc \<in> set (child_watches ?before)" by simp
  have n: "\<forall>info\<in>set (pending (child_kernel ?before)). \<forall>event status.
           nih_child_poll_switch info = Some (event, status, True)
             \<and> si_pid info = watch_pid ?wc
           \<longrightarrow> watch_events ?wc AND event = 0"
    by (auto simp: nih_child_poll_switch_def CLD_EXITED_def CLD_KILLED_def CLD_DUMPED_def
          CLD_TRAPPED_def CLD_STOPPED_def CLD_CONTINUED_def NIH_CHILD_EXITED_def
          NIH_CHILD_STOPPED_def)
  from s m n have "?wc \<in> set (child_watches s')" by blast
  with k r show ?thesis by blast
qed

end
